theory Spec2Isabelle
  imports Main "HOL-Library.Sublist"
begin

section \<open>Effects of the scraper: network requests, pauses, console and file output\<close>

text \<open>
  The script \<^verbatim>\<open>scraper.py\<close> talks to the network through \<^verbatim>\<open>requests.get\<close>,
  sleeps, prints and finally writes one file.  Every function of the model returns, next
  to its result, the list of events it caused, in order.  The network is a parameter:
  \<open>net k url\<close> is what the request number \<open>k\<close> of the run (counted from 0) yields when
  it is sent to \<open>url\<close>: either the text of the response, or an exception raised by
  \<^verbatim>\<open>requests.get\<close> or by \<^verbatim>\<open>response.raise_for_status()\<close> (timeout, connection
  error, error status), carried with its message.  Pauses are in milliseconds.
\<close>

datatype outcome = Returned string | Raised string

type_synonym network = "nat \<Rightarrow> string \<Rightarrow> outcome"

record clinic_link =
  name :: string
  url :: string

datatype event =
    HttpGet string
  | Sleep nat
  | Print string
  | PrintLinks "clinic_link list"
  | PrintProgress nat nat string
  | PrintMark bool
  | OpenWrite string
  | WriteText string

fun is_get :: "event \<Rightarrow> bool" where
  "is_get (HttpGet u) = True"
| "is_get e = False"

definition requests_in :: "event list \<Rightarrow> nat" where
  "requests_in evs = length (filter is_get evs)"

section \<open>Python strings\<close>

text \<open>
  A Python \<^verbatim>\<open>str\<close> is modelled as a \<open>string\<close>: a list of characters with code points
  0 to 255.  \<open>py_isspace\<close> is \<^verbatim>\<open>str.isspace\<close> on one character of that range, which is
  also what \<^verbatim>\<open>\s\<close> matches; \<open>py_isdigit\<close> is what \<^verbatim>\<open>\d\<close> matches and \<open>py_isword\<close> what
  \<^verbatim>\<open>\w\<close> matches there (letters, digits, underscore, and the letters and numeric
  characters of Latin-1, given by their code points).  \<open>lower_char\<close> is the lower case
  of an ASCII letter, the only case folding that a pattern of ASCII letters needs here.
\<close>

definition code :: "char \<Rightarrow> nat" where
  "code c = of_char c"

text \<open>Membership of a character in a string, deciding at the first hit.\<close>

fun elem :: "char \<Rightarrow> string \<Rightarrow> bool" where
  "elem c [] = False"
| "elem c (d # ds) = (if c = d then True else elem c ds)"

definition upper_letters :: string where
  "upper_letters = ''ABCDEFGHIJKLMNOPQRSTUVWXYZ''"

definition lower_letters :: string where
  "lower_letters = ''abcdefghijklmnopqrstuvwxyz''"

definition py_isspace :: "char \<Rightarrow> bool" where
  "py_isspace c =
     elem c [CHR '' '', CHR 0x0A, CHR 0x09, CHR 0x0D, CHR 0x0B, CHR 0x0C,
             CHR 0x1C, CHR 0x1D, CHR 0x1E, CHR 0x1F, CHR 0x85, CHR 0xA0]"

definition py_isdigit :: "char \<Rightarrow> bool" where
  "py_isdigit c = elem c ''0123456789''"

definition py_isword :: "char \<Rightarrow> bool" where
  "py_isword c =
     (if elem c lower_letters then True
      else if elem c upper_letters then True
      else if py_isdigit c then True
      else if c = CHR ''_'' then True
      else (code c = 170 \<or> code c = 178 \<or> code c = 179 \<or> code c = 181 \<or> code c = 185 \<or>
            code c = 186 \<or> (188 \<le> code c \<and> code c \<le> 190) \<or> (192 \<le> code c \<and> code c \<le> 214) \<or>
            (216 \<le> code c \<and> code c \<le> 246) \<or> 248 \<le> code c))"

definition lower_char :: "char \<Rightarrow> char" where
  "lower_char c = (case map_of (zip upper_letters lower_letters) c of Some l \<Rightarrow> l | None \<Rightarrow> c)"

definition lstrip_chars :: "(char \<Rightarrow> bool) \<Rightarrow> string \<Rightarrow> string" where
  "lstrip_chars P s = dropWhile P s"

definition strip :: "string \<Rightarrow> string" where
  "strip s = rev (dropWhile py_isspace (rev (dropWhile py_isspace s)))"

text \<open>\<open>find_sub sep s\<close> is \<^verbatim>\<open>s.find(sep)\<close>: the index of the leftmost occurrence.\<close>

fun find_sub :: "string \<Rightarrow> string \<Rightarrow> nat option" where
  "find_sub sep [] = (if sep = [] then Some 0 else None)"
| "find_sub sep (c # cs) =
     (if prefix sep (c # cs) then Some 0 else map_option Suc (find_sub sep cs))"

definition contains :: "string \<Rightarrow> string \<Rightarrow> bool" where
  "contains sep s = (find_sub sep s \<noteq> None)"

lemma find_sub_bound: "find_sub sep s = Some i \<Longrightarrow> i + length sep \<le> length s"
proof (induction s arbitrary: i)
  case Nil
  then show ?case by (simp split: if_splits)
next
  case (Cons c cs)
  show ?case
  proof (cases "prefix sep (c # cs)")
    case True
    then show ?thesis using Cons.prems prefix_length_le [OF True] by simp
  next
    case False
    then obtain j where "find_sub sep cs = Some j" "i = Suc j" using Cons.prems by auto
    then show ?thesis using Cons.IH by simp
  qed
qed

text \<open>
  \<^verbatim>\<open>s.split(sep)\<close> and \<^verbatim>\<open>s.replace(old, new)\<close> cut at the leftmost occurrences, which
  do not overlap.  Python raises \<^verbatim>\<open>ValueError\<close> for an empty separator, and inserts
  \<^verbatim>\<open>new\<close> around every character for an empty \<^verbatim>\<open>old\<close>; the script passes non-empty
  literals only, and the model leaves the string as it is in those two cases.
\<close>

function py_split :: "string \<Rightarrow> string \<Rightarrow> string list" where
  "py_split sep s =
     (if sep = [] then [s]
      else (case find_sub sep s of
              None \<Rightarrow> [s]
            | Some i \<Rightarrow> take i s # py_split sep (drop (i + length sep) s)))"
  by pat_completeness auto
termination
proof (relation "measure (\<lambda>(sep, s). length s)")
  show "wf (measure (\<lambda>(sep, s). length s))" by simp
next
  fix sep s :: string and i
  assume "sep \<noteq> []" "find_sub sep s = Some i"
  then have "i + length sep \<le> length s" "0 < length sep"
    by (simp_all add: find_sub_bound)
  then have "length (drop (i + length sep) s) < length s"
    by (simp del: length_greater_0_conv)
  then show "((sep, drop (i + length sep) s), (sep, s)) \<in> measure (\<lambda>(sep, s). length s)"
    by simp
qed

function py_replace :: "string \<Rightarrow> string \<Rightarrow> string \<Rightarrow> string" where
  "py_replace old new s =
     (if old = [] then s
      else (case find_sub old s of
              None \<Rightarrow> s
            | Some i \<Rightarrow> take i s @ new @ py_replace old new (drop (i + length old) s)))"
  by pat_completeness auto
termination
proof (relation "measure (\<lambda>(old, new, s). length s)")
  show "wf (measure (\<lambda>(old, new, s). length s))" by simp
next
  fix old new s :: string and i
  assume "old \<noteq> []" "find_sub old s = Some i"
  then have "i + length old \<le> length s" "0 < length old"
    by (simp_all add: find_sub_bound)
  then have "length (drop (i + length old) s) < length s"
    by (simp del: length_greater_0_conv)
  then show "((old, new, drop (i + length old) s), (old, new, s)) \<in> measure (\<lambda>(old, new, s). length s)"
    by simp
qed

declare py_split.simps [simp del] py_replace.simps [simp del]

section \<open>Regular expressions\<close>

text \<open>
  The patterns of the script are sequences of literals, alternations of literals and
  greedy repetitions of one character class.  \<open>Rep neg cl lo hi\<close> is the class \<open>cl\<close>
  (negated when \<open>neg\<close>) repeated at least \<open>lo\<close> and at most \<open>hi\<close> times (\<open>None\<close>: no
  bound).  The matcher is the backtracking matcher of \<^verbatim>\<open>re\<close>: a repetition first takes
  as many characters as it can and gives them back one at a time, an alternation tries
  its branches from left to right, and the first way that lets the rest of the pattern
  match is the match.  A match is the list of the texts matched by the items, in order.
  \<open>ic\<close> is the flag \<^verbatim>\<open>re.IGNORECASE\<close>.
\<close>

datatype atom = Chr char | Rng char char | Digit | Space | Word

datatype item = Lit string | Alt "string list" | Rep bool "atom list" nat "nat option"

fun atom_ok :: "atom \<Rightarrow> char \<Rightarrow> bool" where
  "atom_ok (Chr d) c = (c = d)"
| "atom_ok (Rng a b) c = (code a \<le> code c \<and> code c \<le> code b)"
| "atom_ok Digit c = py_isdigit c"
| "atom_ok Space c = py_isspace c"
| "atom_ok Word c = py_isword c"

definition in_class :: "bool \<Rightarrow> atom list \<Rightarrow> char \<Rightarrow> bool" where
  "in_class neg cl c = (neg \<noteq> list_ex (\<lambda>a. atom_ok a c) cl)"

text \<open>
  Two characters match when they are equal or, under \<^verbatim>\<open>re.IGNORECASE\<close>, have the same
  lower case.  \<open>starts_with ic l s\<close>: the literal \<open>l\<close> matches at the start of \<open>s\<close>.
\<close>

definition same_char :: "bool \<Rightarrow> char \<Rightarrow> char \<Rightarrow> bool" where
  "same_char ic a b = (if a = b then True else if ic then lower_char a = lower_char b else False)"

fun starts_with :: "bool \<Rightarrow> string \<Rightarrow> string \<Rightarrow> bool" where
  "starts_with ic [] s = True"
| "starts_with ic (a # l) [] = False"
| "starts_with ic (a # l) (c # s) = (if same_char ic a c then starts_with ic l s else False)"

definition run_length :: "(char \<Rightarrow> bool) \<Rightarrow> nat option \<Rightarrow> string \<Rightarrow> nat" where
  "run_length P hi s =
     (case hi of None \<Rightarrow> length (takeWhile P s) | Some h \<Rightarrow> min h (length (takeWhile P s)))"

primrec try_alts :: "bool \<Rightarrow> string list \<Rightarrow> string \<Rightarrow> (string \<Rightarrow> string \<Rightarrow> 'a option) \<Rightarrow> 'a option" where
  "try_alts ic [] s k = None"
| "try_alts ic (l # ls) s k =
     (case (if starts_with ic l s then k (take (length l) s) (drop (length l) s) else None) of
        Some r \<Rightarrow> Some r
      | None \<Rightarrow> try_alts ic ls s k)"

primrec try_rep :: "nat \<Rightarrow> nat \<Rightarrow> string \<Rightarrow> (string \<Rightarrow> string \<Rightarrow> 'a option) \<Rightarrow> 'a option" where
  "try_rep 0 lo s k = (if lo = 0 then k [] s else None)"
| "try_rep (Suc n) lo s k =
     (if Suc n < lo then None
      else (case k (take (Suc n) s) (drop (Suc n) s) of
              Some r \<Rightarrow> Some r
            | None \<Rightarrow> try_rep n lo s k))"

fun match_item :: "bool \<Rightarrow> item \<Rightarrow> string \<Rightarrow> (string \<Rightarrow> string \<Rightarrow> 'a option) \<Rightarrow> 'a option" where
  "match_item ic (Lit l) s k = try_alts ic [l] s k"
| "match_item ic (Alt ls) s k = try_alts ic ls s k"
| "match_item ic (Rep neg cl lo hi) s k = try_rep (run_length (in_class neg cl) hi s) lo s k"

primrec match_items :: "bool \<Rightarrow> item list \<Rightarrow> string \<Rightarrow> string list option" where
  "match_items ic [] = (\<lambda>s. Some [])"
| "match_items ic (it # rest) =
     (\<lambda>s. match_item ic it s (\<lambda>m s'. map_option ((#) m) (match_items ic rest s')))"

text \<open>\<^verbatim>\<open>re.search\<close>: the match at the leftmost position that has one.\<close>

fun re_search :: "bool \<Rightarrow> item list \<Rightarrow> string \<Rightarrow> string list option" where
  "re_search ic p [] = match_items ic p []"
| "re_search ic p (c # cs) =
     (case match_items ic p (c # cs) of
        Some m \<Rightarrow> Some m
      | None \<Rightarrow> re_search ic p cs)"


text \<open>
  A pattern is its items and its capture groups, each group the range of items it
  encloses (from, up to).  \<^verbatim>\<open>match.group(j)\<close> is the whole match for \<open>j = 0\<close>, the text
  of group \<open>j\<close> when the pattern has one, and raises \<^verbatim>\<open>IndexError\<close> otherwise.
\<close>

datatype exn = IndexError string | ParserException string

type_synonym pattern = "item list \<times> (nat \<times> nat) list"

definition span_text :: "nat \<times> nat \<Rightarrow> string list \<Rightarrow> string" where
  "span_text g m = concat (take (snd g - fst g) (drop (fst g) m))"

definition group :: "pattern \<Rightarrow> string list \<Rightarrow> nat \<Rightarrow> exn + string" where
  "group p m j =
     (if j = 0 then Inr (concat m)
      else if j \<le> length (snd p) then Inr (span_text (snd p ! (j - 1)) m)
      else Inl (IndexError ''no such group''))"

fun exn_text :: "exn \<Rightarrow> string" where
  "exn_text (IndexError m) = m"
| "exn_text (ParserException m) = m"

text \<open>
  \<^verbatim>\<open>re.sub\<close>: every match, from left to right and without overlap, is replaced by
  \<open>repl\<close> of the match; the other characters stay.  After an empty match the next
  character is copied.
\<close>

function re_sub :: "bool \<Rightarrow> item list \<Rightarrow> (string list \<Rightarrow> string) \<Rightarrow> string \<Rightarrow> string" where
  "re_sub ic p repl [] = (case match_items ic p [] of Some m \<Rightarrow> repl m | None \<Rightarrow> [])"
| "re_sub ic p repl (c # cs) =
     (case match_items ic p (c # cs) of
        None \<Rightarrow> c # re_sub ic p repl cs
      | Some m \<Rightarrow>
          (if length (concat m) = 0 then repl m @ c # re_sub ic p repl cs
           else repl m @ re_sub ic p repl (drop (length (concat m)) (c # cs))))"
  by pat_completeness auto
termination
  by (relation "measure (\<lambda>(ic, p, repl, s). length s)") auto

declare re_sub.simps [simp del]

text \<open>\<^verbatim>\<open>sep.join(xs)\<close>.\<close>

fun join :: "string \<Rightarrow> string list \<Rightarrow> string" where
  "join sep [] = []"
| "join sep [x] = x"
| "join sep (x # y # ys) = x @ sep @ join sep (y # ys)"

section \<open>Parsed pages\<close>

text \<open>
  A parsed page is the tree that \<^verbatim>\<open>BeautifulSoup(content, 'html.parser')\<close> builds: an
  element has a tag name, its attributes (each name once) and its children; a text node
  is a string that \<^verbatim>\<open>get_text\<close> returns.  The soup itself is the root element.  The
  parser is a parameter of the model: \<open>parser content\<close> is the tree, or the message of
  the exception that \<^verbatim>\<open>BeautifulSoup\<close> raises on this content.
\<close>

datatype node = Element string "(string \<times> string) list" "node list" | Text string

type_synonym parser = "string \<Rightarrow> string + node"

fun all_strings :: "node \<Rightarrow> string list" where
  "all_strings (Text s) = [s]"
| "all_strings (Element t as cs) = concat (map all_strings cs)"

fun descendants :: "node \<Rightarrow> node list" where
  "descendants (Text s) = []"
| "descendants (Element t as cs) = concat (map (\<lambda>c. c # descendants c) cs)"

definition get_text :: "node \<Rightarrow> string" where
  "get_text n = concat (all_strings n)"

text \<open>\<^verbatim>\<open>get_text(strip=True)\<close> strips every string and leaves the empty ones out.\<close>

definition get_text_strip :: "node \<Rightarrow> string" where
  "get_text_strip n = concat (filter (\<lambda>s. s \<noteq> []) (map strip (all_strings n)))"

fun is_tag :: "string list \<Rightarrow> node \<Rightarrow> bool" where
  "is_tag ts (Element t as cs) = (t \<in> set ts)"
| "is_tag ts (Text s) = False"

fun attr_get :: "node \<Rightarrow> string \<Rightarrow> string option" where
  "attr_get (Element t as cs) k = map_of as k"
| "attr_get (Text s) k = None"

fun children :: "node \<Rightarrow> node list" where
  "children (Element t as cs) = cs"
| "children (Text s) = []"

definition find_all :: "string list \<Rightarrow> node \<Rightarrow> node list" where
  "find_all ts n = filter (is_tag ts) (descendants n)"

definition find_first :: "string list \<Rightarrow> node \<Rightarrow> node option" where
  "find_first ts n = List.find (is_tag ts) (descendants n)"

text \<open>The decimal text of a number, as \<^verbatim>\<open>str\<close> and the f-strings give it.\<close>

fun str_nat :: "nat \<Rightarrow> string" where
  "str_nat n =
     (if n < 10 then [char_of (48 + n)] else str_nat (n div 10) @ [char_of (48 + n mod 10)])"

declare str_nat.simps [simp del]

section \<open>Fetcher\<close>

text \<open>
  \<^verbatim>\<open>get_page_content\<close>: the loop \<^verbatim>\<open>for attempt in range(max_retries)\<close> is a recursion
  over the list of attempt numbers.  \<open>k\<close> is the number of requests sent before the
  current attempt.  A loop that ran out of attempts without returning would fall off the
  end of the function, which is Python's \<^verbatim>\<open>None\<close>.
\<close>

fun get_page_loop :: "network \<Rightarrow> string \<Rightarrow> nat \<Rightarrow> nat list \<Rightarrow> nat \<Rightarrow> string option \<times> event list" where
  "get_page_loop net u max_retries [] k = (None, [])"
| "get_page_loop net u max_retries (attempt # rest) k =
     (case net k u of
        Returned text \<Rightarrow> (Some text, [HttpGet u])
      | Raised e \<Rightarrow>
          (if attempt < max_retries - 1
           then (let (r, evs) = get_page_loop net u max_retries rest (Suc k)
                 in (r, HttpGet u # Sleep 1000 # evs))
           else (None, [HttpGet u, Print (''  Error fetching URL '' @ u @ '': '' @ take 50 e)])))"

definition get_page_content :: "network \<Rightarrow> nat \<Rightarrow> string \<Rightarrow> string option \<times> event list" where
  "get_page_content net k u = get_page_loop net u 3 [0..<3] k"

fun is_raised :: "outcome \<Rightarrow> bool" where
  "is_raised (Raised e) = True"
| "is_raised (Returned t) = False"

fun error_text :: "outcome \<Rightarrow> string" where
  "error_text (Raised e) = e"
| "error_text (Returned t) = []"

section \<open>Region Lister\<close>

definition BASE_URL :: string where
  "BASE_URL = ''https://web.archive.org/web/20250708180027/https://www.myfootdr.com.au''"

definition build_clinic_url :: "string \<Rightarrow> string" where
  "build_clinic_url clinic_path = BASE_URL @ ''/'' @ lstrip_chars (\<lambda>c. c = CHR ''/'') clinic_path"

text \<open>\<^verbatim>\<open>a or d\<close> for an attribute value \<open>a\<close> that may be missing (\<^verbatim>\<open>None\<close>) or empty.\<close>

fun or_else :: "string option \<Rightarrow> string \<Rightarrow> string" where
  "or_else None d = d"
| "or_else (Some a) d = (if a = [] then d else a)"

text \<open>The display name of an anchor: lines 70 to 78.\<close>

definition link_text :: "node \<Rightarrow> string" where
  "link_text link =
     (let text = get_text_strip link in
      if text = [] \<or> length text < 2 then
        (let text' = or_else (attr_get link ''title'') (or_else (attr_get link ''aria-label'') []) in
         if text' = [] then
           (case find_first [''h2'', ''h3'', ''h4''] link of
              Some nested \<Rightarrow> get_text_strip nested
            | None \<Rightarrow> text')
         else text')
      else text)"

definition slug_pattern :: pattern where
  "slug_pattern = ([Lit ''/our-clinics/'', Rep True [Chr CHR ''/''] 1 None, Lit ''/''], [(1, 2)])"

text \<open>
  The slug of a clinic link: lines 90 to 100.  The fallback takes the text after the last
  cut of \<^verbatim>\<open>href.split('/our-clinics/')\<close> up to its first slash; both lists have at
  least one element, so the \<^verbatim>\<open>except\<close> branch is never taken.
\<close>

definition clinic_slug_of :: "string \<Rightarrow> exn + string" where
  "clinic_slug_of href =
     (case re_search False (fst slug_pattern) href of
        Some m \<Rightarrow> group slug_pattern m 1
      | None \<Rightarrow>
          (let tail = last (py_split ''/our-clinics/'' href)
           in Inr (strip (hd (py_split ''/'' tail)))))"

definition prefix_to_remove :: string where
  "prefix_to_remove = ''https://web.archive.org/web/20250708180027/''"

text \<open>One round of the loop over the anchors: the link it appends, if any.\<close>

definition anchor_link :: "node \<Rightarrow> exn + clinic_link option" where
  "anchor_link link =
     (let href = or_else (attr_get link ''href'') []; text = link_text link in
      if href = [] \<or> text = [] \<or> length text < 2 then Inr None
      else if strip text = ''Our Clinics'' then Inr None
      else if contains ''/our-clinics/'' href \<and> \<not> contains ''/regions/'' href then
        (case clinic_slug_of href of
           Inl e \<Rightarrow> Inl e
         | Inr clinic_slug \<Rightarrow>
             if clinic_slug \<noteq> [] then
               (let clinic_url = build_clinic_url (''our-clinics/'' @ clinic_slug @ ''/'');
                    clinic_url = py_replace prefix_to_remove [] clinic_url
                in Inr (Some \<lparr>name = text, url = clinic_url\<rparr>))
             else Inr None)
      else Inr None)"

fun collect_links :: "node list \<Rightarrow> clinic_link list \<Rightarrow> exn + clinic_link list" where
  "collect_links [] clinics = Inr clinics"
| "collect_links (link # links) clinics =
     (case anchor_link link of
        Inl e \<Rightarrow> Inl e
      | Inr None \<Rightarrow> collect_links links clinics
      | Inr (Some c) \<Rightarrow> collect_links links (clinics @ [c]))"

text \<open>The removal of duplicates: lines 109 to 114.\<close>

fun remove_duplicates :: "clinic_link list \<Rightarrow> string set \<Rightarrow> clinic_link list \<Rightarrow> clinic_link list" where
  "remove_duplicates [] seen unique_clinics = unique_clinics"
| "remove_duplicates (clinic # clinics) seen unique_clinics =
     (if url clinic \<notin> seen
      then remove_duplicates clinics (insert (url clinic) seen) (unique_clinics @ [clinic])
      else remove_duplicates clinics seen unique_clinics)"

text \<open>
  What the spec asks of the removal of duplicates, in its words: the links whose URL
  has not been seen at an earlier position of the list, in the order of discovery.
\<close>

definition first_seen :: "clinic_link list \<Rightarrow> clinic_link list" where
  "first_seen cs = [cs ! i. i \<leftarrow> [0..<length cs], url (cs ! i) \<notin> url ` set (take i cs)]"

text \<open>
  \<^verbatim>\<open>soup.find_all('a', href=True)\<close>: the anchors that have the attribute, in document
  order.
\<close>

definition anchors :: "node \<Rightarrow> node list" where
  "anchors soup = filter (\<lambda>a. attr_get a ''href'' \<noteq> None) (find_all [''a''] soup)"

definition region_url_of :: "string \<Rightarrow> string" where
  "region_url_of region_name = BASE_URL @ ''/our-clinics/regions/'' @ region_name @ ''/''"

text \<open>
  \<^verbatim>\<open>extract_clinics_from_region\<close>.  \<open>k\<close> is the number of requests sent before the
  call.  An exception of the parser is not caught here: the result is then \<open>Inl\<close>, with
  the events up to it.
\<close>

definition extract_clinics_from_region ::
  "parser \<Rightarrow> network \<Rightarrow> nat \<Rightarrow> string \<Rightarrow> (exn + clinic_link list) \<times> event list" where
  "extract_clinics_from_region parse net k region_name =
     (let (content, evs) = get_page_content net k (region_url_of region_name);
          evs = Print (''Fetching region: '' @ region_name) # evs
      in case content of
           None \<Rightarrow> (Inr [], evs @ [Print ''  Failed to fetch region page''])
         | Some c \<Rightarrow>
             if c = [] then (Inr [], evs @ [Print ''  Failed to fetch region page''])
             else (case parse c of
                     Inl msg \<Rightarrow> (Inl (ParserException msg), evs)
                   | Inr soup \<Rightarrow>
                       (case collect_links (anchors soup) [] of
                          Inl e \<Rightarrow> (Inl e, evs)
                        | Inr clinics \<Rightarrow>
                            (let unique_clinics = remove_duplicates clinics {} []
                             in (Inr unique_clinics,
                                 evs @ [Print (''  Found '' @ str_nat (length unique_clinics) @ '' clinics'')])))))"

section \<open>Clinic Detail Extractor\<close>

record clinic_record =
  Name_of_Clinic :: string
  Address :: string
  Email :: string
  Phone :: string
  Services :: string

definition ADDRESS_OVERRIDES :: "(string \<times> string) list" where
  "ADDRESS_OVERRIDES =
     [(''Allsports Podiatry Noosa'', ''Unit 4, 17 Sunshine Beach Rd'' @ [CHR 0x0A] @ ''Noosa QLD 4567'')]"

text \<open>
  The phone patterns, each with its source text, which the loop inspects
  (\<^verbatim>\<open>'(' in pattern\<close>).  A string literal cannot hold a backslash: \<open>raw\<close> turns every
  \<open>~\<close> of its argument into one, and no pattern of the script contains \<open>~\<close>.
  \<^verbatim>\<open>r'Call\s+([\d\s\(\)\-\+]+)'\<close> and \<^verbatim>\<open>r'[\(\s]?0[2-9][\d\s\(\)\-]{7,}'\<close>.
\<close>

definition raw :: "string \<Rightarrow> string" where
  "raw s = map (\<lambda>c. if c = CHR ''~'' then CHR 0x5C else c) s"

definition phone_patterns :: "(string \<times> pattern) list" where
  "phone_patterns =
     [(raw ''Call~s+([~d~s~(~)~-~+]+)'',
       ([Lit ''Call'', Rep False [Space] 1 None,
         Rep False [Digit, Space, Chr CHR ''('', Chr CHR '')'', Chr CHR ''-'', Chr CHR ''+''] 1 None],
        [(2, 3)])),
      (raw ''[~(~s]?0[2-9][~d~s~(~)~-]{7,}'',
       ([Rep False [Chr CHR ''('', Space] 0 (Some 1), Lit ''0'', Rep False [Rng CHR ''2'' CHR ''9''] 1 (Some 1),
         Rep False [Digit, Space, Chr CHR ''('', Chr CHR '')'', Chr CHR ''-''] 7 None],
        []))]"

text \<open>\<^verbatim>\<open>r'[^\d\s\(\)\-\+]'\<close>, the characters that the cleaning of a phone number removes.\<close>

definition phone_junk :: "item list" where
  "phone_junk = [Rep True [Digit, Space, Chr CHR ''('', Chr CHR '')'', Chr CHR ''-'', Chr CHR ''+''] 1 (Some 1)]"

text \<open>
  The loop over the phone patterns: lines 148 to 155.  \<open>phone\<close> is the value of
  \<^verbatim>\<open>details['Phone']\<close>; the \<^verbatim>\<open>break\<close> ends the loop with the cleaned number.
\<close>

fun phone_loop :: "(string \<times> pattern) list \<Rightarrow> string \<Rightarrow> string \<Rightarrow> exn + string" where
  "phone_loop [] text_content phone = Inr phone"
| "phone_loop ((src, pat) # rest) text_content phone =
     (case re_search True (fst pat) text_content of
        None \<Rightarrow> phone_loop rest text_content phone
      | Some phone_match \<Rightarrow>
          (case group pat phone_match (if CHR ''('' \<in> set src then 1 else 0) of
             Inl e \<Rightarrow> Inl e
           | Inr phone_text \<Rightarrow>
               (let phone_clean = strip (re_sub False phone_junk (\<lambda>m. []) phone_text)
                in if phone_clean \<noteq> [] \<and> length phone_clean > 5 then Inr phone_clean
                   else phone_loop rest text_content phone)))"

text \<open>\<^verbatim>\<open>r'[\w\.-]+@[\w\.-]+\.\w+'\<close>\<close>

definition email_pattern :: pattern where
  "email_pattern =
     ([Rep False [Word, Chr CHR ''.'', Chr CHR ''-''] 1 None, Lit ''@'',
       Rep False [Word, Chr CHR ''.'', Chr CHR ''-''] 1 None, Lit ''.'', Rep False [Word] 1 None], [])"

definition extract_email :: "string \<Rightarrow> exn + string" where
  "extract_email text_content =
     (case re_search False (fst email_pattern) text_content of
        Some email_match \<Rightarrow> group email_pattern email_match 0
      | None \<Rightarrow> Inr [])"

definition street_types :: "string list" where
  "street_types =
     [''St'', ''Street'', ''Rd'', ''Road'', ''Ave'', ''Avenue'', ''Dr'', ''Drive'', ''Lane'', ''Ln'',
      ''Crescent'', ''Cres'', ''Court'', ''Ct'', ''Pl'', ''Place'', ''Bvd'', ''Boulevard'']"

definition state_codes :: "string list" where
  "state_codes = [''QLD'', ''NSW'', ''VIC'', ''WA'', ''SA'', ''NT'', ''TAS'', ''ACT'']"

text \<open>
  The two address patterns of lines 165 and 166; each is one capture group around
  the whole pattern.
\<close>

definition address_patterns :: "pattern list" where
  "address_patterns =
     [([Alt [''Unit'', ''Suite'', ''No'', ''Lot''], Rep False [Space, Digit, Word, Chr CHR ''-''] 0 None,
        Lit '','', Rep False [Space] 0 None, Rep False [Digit] 1 None,
        Rep False [Word, Space, Chr CHR ''.''] 1 None, Alt street_types, Rep False [Space] 1 None,
        Rep False [Word, Space] 1 None, Alt state_codes, Rep False [Space] 1 None,
        Rep False [Digit] 4 (Some 4)],
       [(0, 12)]),
      ([Rep False [Digit] 1 None, Rep False [Space, Word, Chr CHR ''-''] 0 None, Alt street_types,
        Rep False [Word, Space] 1 None, Alt state_codes, Rep False [Space] 1 None,
        Rep False [Digit] 4 (Some 4)],
       [(0, 7)])]"

text \<open>\<^verbatim>\<open>r'\s+'\<close>\<close>

definition whitespace_run :: "item list" where
  "whitespace_run = [Rep False [Space] 1 None]"

text \<open>The loop over the address patterns: lines 169 to 178.\<close>

fun address_loop :: "pattern list \<Rightarrow> string \<Rightarrow> string \<Rightarrow> exn + string" where
  "address_loop [] text_content addr_text = Inr addr_text"
| "address_loop (pat # rest) text_content addr_text =
     (case re_search True (fst pat) text_content of
        None \<Rightarrow> address_loop rest text_content addr_text
      | Some address_match \<Rightarrow>
          (case group pat address_match 1 of
             Inl e \<Rightarrow> Inl e
           | Inr g \<Rightarrow> Inr (re_sub False whitespace_run (\<lambda>m. '' '') (strip g))))"

text \<open>
  The heading of the services: the first \<^verbatim>\<open>h2\<close> or \<^verbatim>\<open>h3\<close> element, in document
  order, whose text contains \<^verbatim>\<open>Services Available\<close>.  A tree has no pointers to
  parents, so the heading is given by what the script reads from it: the nodes that
  follow it among the children of its parent.
\<close>

fun services_heading :: "node list \<Rightarrow> node list option" where
  "services_heading [] = None"
| "services_heading (Text s # ns) = services_heading ns"
| "services_heading (Element t as cs # ns) =
     (if t \<in> set [''h2'', ''h3''] \<and> contains ''Services Available'' (get_text (Element t as cs))
      then Some ns
      else (case services_heading cs of
              Some r \<Rightarrow> Some r
            | None \<Rightarrow> services_heading ns))"

text \<open>
  The heading of the services in the words of the spec: the first element of level 2
  or 3, in document order, whose text contains \<^verbatim>\<open>Services Available\<close>.
  \<open>first_heading ns siblings\<close> says that this heading lies in the forest \<open>ns\<close> and that
  \<open>siblings\<close> are the nodes after it under its parent: it is one of \<open>ns\<close>, or it lies
  inside one of them, and no node before it, at any depth, is such a heading.
\<close>

definition is_services_heading :: "node \<Rightarrow> bool" where
  "is_services_heading n = (is_tag [''h2'', ''h3''] n \<and> contains ''Services Available'' (get_text n))"

definition document_order :: "node list \<Rightarrow> node list" where
  "document_order ns = concat (map (\<lambda>n. n # descendants n) ns)"

inductive first_heading :: "node list \<Rightarrow> node list \<Rightarrow> bool" where
  here: "is_services_heading h \<Longrightarrow> \<forall>n \<in> set (document_order before). \<not> is_services_heading n \<Longrightarrow>
         first_heading (before @ h # siblings) siblings"
| inside: "\<forall>n \<in> set (document_order before). \<not> is_services_heading n \<Longrightarrow>
           \<not> is_services_heading (Element t as cs) \<Longrightarrow> first_heading cs siblings \<Longrightarrow>
           first_heading (before @ Element t as cs # after) siblings"

text \<open>
  \<^verbatim>\<open>r'\[([^\]]+)\]\([^\)]+\)'\<close>, a link in markdown syntax, replaced by its text
  (\<^verbatim>\<open>r'\1'\<close>).
\<close>

definition markdown_link :: pattern where
  "markdown_link =
     ([Lit ''['', Rep True [Chr CHR '']''] 1 None, Lit '']'', Lit ''('', Rep True [Chr CHR '')''] 1 None,
       Lit '')''],
      [(1, 2)])"

text \<open>
  The walk over the siblings after the heading: lines 194 to 211.
  \<^verbatim>\<open>find_next_sibling()\<close> steps to the next element and passes over text nodes.
\<close>

fun walk_siblings :: "node list \<Rightarrow> string list \<Rightarrow> string list" where
  "walk_siblings [] services = services"
| "walk_siblings (Text s # rest) services = walk_siblings rest services"
| "walk_siblings (Element t as cs # rest) services =
     (if t = ''h2'' then services
      else if t = ''article'' then
        (case find_first [''h3''] (Element t as cs) of
           Some h3 \<Rightarrow>
             (let service_text = get_text_strip h3;
                  service_text = re_sub False (fst markdown_link) (span_text (snd markdown_link ! 0)) service_text
              in if service_text \<noteq> [] \<and> length service_text > 2
                 then walk_siblings rest (services @ [service_text])
                 else walk_siblings rest services)
         | None \<Rightarrow> walk_siblings rest services)
      else walk_siblings rest services)"

text \<open>What one service card adds to the list: the body of the \<^verbatim>\<open>article\<close> branch of the walk.\<close>

definition service_name :: "node \<Rightarrow> string option" where
  "service_name a =
     (case find_first [''h3''] a of
        Some h3 \<Rightarrow>
          (let t = re_sub False (fst markdown_link) (span_text (snd markdown_link ! 0)) (get_text_strip h3)
           in if t \<noteq> [] \<and> length t > 2 then Some t else None)
      | None \<Rightarrow> None)"

definition extract_services :: "node \<Rightarrow> string" where
  "extract_services soup =
     (let services = (case services_heading (children soup) of
                        Some siblings \<Rightarrow> walk_siblings siblings []
                      | None \<Rightarrow> [])
      in if services \<noteq> [] then join '', '' services else [])"

text \<open>The manual overrides of lines 216 to 218: \<^verbatim>\<open>if override:\<close> holds for a non-empty value.\<close>

definition apply_override :: "(string \<times> string) list \<Rightarrow> clinic_record \<Rightarrow> clinic_record" where
  "apply_override table details =
     (case map_of table (Name_of_Clinic details) of
        None \<Rightarrow> details
      | Some override \<Rightarrow> if override \<noteq> [] then details\<lparr>Address := override\<rparr> else details)"

text \<open>
  The fields of one parsed page, from line 134 on.  An exception of
  \<^verbatim>\<open>match.group\<close> is not caught in \<^verbatim>\<open>extract_clinic_details\<close>.
\<close>

definition extract_fields :: "node \<Rightarrow> string \<Rightarrow> exn + clinic_record" where
  "extract_fields soup clinic_name =
     (let text_content = get_text soup in
      case phone_loop phone_patterns text_content [] of
        Inl e \<Rightarrow> Inl e
      | Inr phone \<Rightarrow>
          (case extract_email text_content of
             Inl e \<Rightarrow> Inl e
           | Inr email \<Rightarrow>
               (case address_loop address_patterns text_content [] of
                  Inl e \<Rightarrow> Inl e
                | Inr addr_text \<Rightarrow>
                    Inr (apply_override ADDRESS_OVERRIDES
                           \<lparr>Name_of_Clinic = clinic_name, Address = addr_text, Email = email,
                            Phone = phone, Services = extract_services soup\<rparr>))))"

text \<open>
  \<^verbatim>\<open>BeautifulSoup(None, 'html.parser')\<close> raises a \<^verbatim>\<open>TypeError\<close>, with this message.
\<close>

definition none_markup_error :: string where
  "none_markup_error = ''object of type 'NoneType' has no len()''"

text \<open>
  \<^verbatim>\<open>extract_clinic_details\<close>.  The result is \<open>Inr None\<close> when the function returns
  \<^verbatim>\<open>None\<close>, \<open>Inr (Some details)\<close> when it returns the record, and \<open>Inl e\<close> when the
  exception \<open>e\<close> leaves it.  \<^verbatim>\<open>get_page_content\<close> raises nothing, so the first
  \<^verbatim>\<open>except\<close> branch is never taken.
\<close>

definition extract_clinic_details ::
  "parser \<Rightarrow> network \<Rightarrow> nat \<Rightarrow> string \<Rightarrow> string \<Rightarrow> (exn + clinic_record option) \<times> event list" where
  "extract_clinic_details parse net k clinic_url clinic_name =
     (let (content, evs) = get_page_content net k clinic_url;
          parsed = (case content of None \<Rightarrow> Inl none_markup_error | Some c \<Rightarrow> parse c)
      in case parsed of
           Inl msg \<Rightarrow> (Inr None, evs @ [Print (''  Error parsing clinic page HTML: '' @ take 50 msg)])
         | Inr soup \<Rightarrow>
             (case extract_fields soup clinic_name of
                Inl e \<Rightarrow> (Inl e, evs)
              | Inr details \<Rightarrow> (Inr (Some details), evs)))"

section \<open>Output file\<close>

text \<open>
  The rows that \<^verbatim>\<open>csv.DictWriter\<close> writes with its default dialect: fields separated by
  commas, a field quoted when it contains a comma, a quote, a carriage return or a line
  feed, quotes inside a quoted field doubled, and every row ended by carriage return
  and line feed (the file is opened with \<^verbatim>\<open>newline=''\<close>, which leaves them as they are).
\<close>

definition CR :: char where
  "CR = CHR 0x0D"

definition LF :: char where
  "LF = CHR 0x0A"

definition QUOTE :: char where
  "QUOTE = CHR 0x22"

definition needs_quotes :: "string \<Rightarrow> bool" where
  "needs_quotes f = list_ex (\<lambda>c. c = CHR '','' \<or> c = QUOTE \<or> c = CR \<or> c = LF) f"

definition csv_field :: "string \<Rightarrow> string" where
  "csv_field f =
     (if needs_quotes f
      then QUOTE # concat (map (\<lambda>c. if c = QUOTE then [QUOTE, QUOTE] else [c]) f) @ [QUOTE]
      else f)"

definition csv_row :: "string list \<Rightarrow> string" where
  "csv_row row = join '','' (map csv_field row) @ [CR, LF]"

definition fieldnames :: "string list" where
  "fieldnames = [''Name of Clinic'', ''Address'', ''Email'', ''Phone'', ''Services'']"

definition row_of :: "clinic_record \<Rightarrow> string list" where
  "row_of d = [Name_of_Clinic d, Address d, Email d, Phone d, Services d]"

definition csv_text :: "clinic_record list \<Rightarrow> string" where
  "csv_text clinic_data = csv_row fieldnames @ concat (map (\<lambda>d. csv_row (row_of d)) clinic_data)"

section \<open>Orchestrator\<close>

definition REGIONS :: "string list" where
  "REGIONS =
     [''sunshine-coast'', ''brisbane'', ''gold-coast'', ''north-queensland'', ''central-queensland'',
      ''new-south-wales'', ''victoria'', ''south-australia'', ''western-australia'',
      ''northern-territory'', ''tasmania'']"

text \<open>
  The loop over the regions: lines 228 to 234.  An exception of a region is caught; the
  pause of half a second is inside the \<^verbatim>\<open>try\<close> and is skipped then.
\<close>

fun listing ::
  "parser \<Rightarrow> network \<Rightarrow> string list \<Rightarrow> nat \<Rightarrow> clinic_link list \<Rightarrow> clinic_link list \<times> event list" where
  "listing parse net [] k all_clinics = (all_clinics, [])"
| "listing parse net (region # regions) k all_clinics =
     (let (res, evs) = extract_clinics_from_region parse net k region
      in case res of
           Inr clinics \<Rightarrow>
             (let (r, evs') = listing parse net regions (k + requests_in evs) (all_clinics @ clinics)
              in (r, evs @ Sleep 500 # evs'))
         | Inl e \<Rightarrow>
             (let (r, evs') = listing parse net regions (k + requests_in evs) all_clinics
              in (r, evs @ Print (''  Error in region '' @ region @ '': '' @ take 50 (exn_text e)) # evs')))"

text \<open>
  The loop over the clinics: lines 245 to 259.  \<open>i\<close> is the number of the clinic, from 1,
  and \<open>n\<close> the number of all clinics.  The progress line and the marks are kept as
  events with their values.  The record is a dictionary of five keys, so
  \<^verbatim>\<open>if details:\<close> holds exactly when the extractor returned one.  An exception of the
  extractor is not caught: it ends the loop and the run.
\<close>

fun detailing ::
  "parser \<Rightarrow> network \<Rightarrow> clinic_link list \<Rightarrow> nat \<Rightarrow> nat \<Rightarrow> nat \<Rightarrow>
   clinic_record list \<times> nat \<times> nat \<Rightarrow> (exn + clinic_record list \<times> nat \<times> nat) \<times> event list" where
  "detailing parse net [] i n k acc = (Inr acc, [])"
| "detailing parse net (clinic # clinics) i n k (clinic_data, successful, failed) =
     (let clinic_name_short = (if length (name clinic) > 45 then take 45 (name clinic) else name clinic);
          (details, evs) = extract_clinic_details parse net k (url clinic) (name clinic);
          evs = PrintProgress i n clinic_name_short # evs
      in case details of
           Inl e \<Rightarrow> (Inl e, evs)
         | Inr None \<Rightarrow>
             (let (r, evs') = detailing parse net clinics (Suc i) n (k + requests_in evs)
                                (clinic_data, successful, failed + 1)
              in (r, evs @ PrintMark False # Sleep 300 # evs'))
         | Inr (Some d) \<Rightarrow>
             (let (r, evs') = detailing parse net clinics (Suc i) n (k + requests_in evs)
                                (clinic_data @ [d], successful + 1, failed)
              in (r, evs @ PrintMark True # Sleep 300 # evs')))"

definition csv_file :: string where
  "csv_file = ''/Users/kittubittu/Documents/clinic-data-scraper/clinics.csv''"

text \<open>The writing of the file and the last lines of the console: lines 262 to 274.\<close>

definition writing :: "clinic_record list \<Rightarrow> nat \<Rightarrow> nat \<Rightarrow> event list" where
  "writing clinic_data successful failed =
     (if clinic_data \<noteq> [] then
        [OpenWrite csv_file, WriteText (csv_row fieldnames)] @
        map (\<lambda>d. WriteText (csv_row (row_of d))) clinic_data @
        [Print ([LF, LF] @ replicate 60 CHR ''=''),
         Print (''Successfully scraped data from '' @ str_nat successful @ '' clinics''),
         Print (''Failed or incomplete: '' @ str_nat failed @ '' clinics''),
         Print (''Data saved to: '' @ csv_file),
         Print (replicate 60 CHR ''='')]
      else [Print ''No clinic data found!''])"

text \<open>
  \<^verbatim>\<open>scrape_all_clinics\<close>: the exception that ends the run, if any, and the events of
  the run.
\<close>

definition scrape_all_clinics :: "parser \<Rightarrow> network \<Rightarrow> exn option \<times> event list" where
  "scrape_all_clinics parse net =
     (let (all_clinics, evs1) = listing parse net REGIONS 0 [];
          (res, evs2) = detailing parse net all_clinics 1 (length all_clinics) (requests_in evs1) ([], 0, 0);
          evs = Print (''Starting clinic data scraper...'' @ [LF]) # evs1 @
                [Print ([LF, LF] @ ''Total clinics discovered: '' @ str_nat (length all_clinics)),
                 PrintLinks all_clinics,
                 Print (''Now fetching individual clinic details...'' @ [LF])] @ evs2
      in case res of
           Inl e \<Rightarrow> (Some e, evs)
         | Inr (clinic_data, successful, failed) \<Rightarrow>
             (None, evs @ writing clinic_data successful failed))"

text \<open>The text that the events leave in the file.\<close>

fun is_file_event :: "event \<Rightarrow> bool" where
  "is_file_event (OpenWrite p) = True"
| "is_file_event (WriteText t) = True"
| "is_file_event e = False"

fun written :: "event list \<Rightarrow> string" where
  "written [] = []"
| "written (WriteText t # evs) = t @ written evs"
| "written (e # evs) = written evs"

section \<open>Reading the output file back\<close>

text \<open>
  Modelled from the spec: the repository has no code that reads the output file.  The
  reader follows the standard quoting of delimited text that the spec names: a field
  that starts with a quote runs to the closing quote, a doubled quote inside it is one
  quote, commas separate row, and a carriage return with line feed (or one of them
  alone) outside quotes ends a row.  The state is the rows read, the fields of the
  current row, the characters of the current field, and where the reader is.
\<close>

datatype mode = Start | Unquoted | Quoted | QuoteSeen | AfterCR

function read_csv :: "mode \<Rightarrow> string list list \<Rightarrow> string list \<Rightarrow> string \<Rightarrow> string \<Rightarrow> string list list" where
  "read_csv md rows row cur [] =
     (if md = AfterCR \<or> (md = Start \<and> row = []) then rows else rows @ [row @ [cur]])"
| "read_csv md rows row cur (c # cs) =
     (if md = AfterCR then
        (if c = LF then read_csv Start rows [] [] cs else read_csv Start rows [] [] (c # cs))
      else if md = Quoted then
        (if c = QUOTE then read_csv QuoteSeen rows row cur cs
         else read_csv Quoted rows row (cur @ [c]) cs)
      else if md = QuoteSeen \<and> c = QUOTE then read_csv Quoted rows row (cur @ [c]) cs
      else if md = Start \<and> c = QUOTE then read_csv Quoted rows row cur cs
      else if c = CHR '','' then read_csv Start rows (row @ [cur]) [] cs
      else if c = CR then read_csv AfterCR (rows @ [row @ [cur]]) [] [] cs
      else if c = LF then read_csv Start (rows @ [row @ [cur]]) [] [] cs
      else read_csv Unquoted rows row (cur @ [c]) cs)"
  by pat_completeness auto
termination
  by (relation "measure (\<lambda>(md, rows, row, cur, s). 2 * length s + (if md = AfterCR then 1 else 0))") auto

definition read_back :: "string \<Rightarrow> string list list" where
  "read_back txt = read_csv Start [] [] [] txt"

section \<open>Example pages\<close>

text \<open>
  A region page with four anchors: a clinic, a region, a clinic whose link has no closing
  slash, and the first clinic a second time.
\<close>

definition example_anchor :: node where
  "example_anchor =
     Element ''a'' [(''href'', ''/web/20250708180027/https://www.myfootdr.com.au/our-clinics/noosa/'')]
       [Text ''Noosa Clinic'']"

definition example_region_page :: node where
  "example_region_page =
     Element ''[document]'' []
       [example_anchor,
        Element ''a'' [(''href'', ''/our-clinics/regions/brisbane/'')] [Text ''Brisbane''],
        Element ''div'' []
          [Element ''a'' [(''href'', ''/our-clinics/cairns'')] [Text '' Cairns Clinic '']],
        Element ''a'' [(''href'', ''https://www.myfootdr.com.au/our-clinics/noosa/'')]
          [Text ''Noosa again'']]"

definition example_links :: "clinic_link list" where
  "example_links =
     [\<lparr>name = ''Noosa Clinic'', url = ''https://www.myfootdr.com.au/our-clinics/noosa/''\<rparr>,
      \<lparr>name = ''Cairns Clinic'', url = ''https://www.myfootdr.com.au/our-clinics/cairns/''\<rparr>]"

text \<open>
  A clinic page with an address and a phone number after the word \<^verbatim>\<open>Call\<close>, and one
  whose phone number stands without it.
\<close>

definition example_clinic_page :: node where
  "example_clinic_page =
     Element ''[document]'' []
       [Element ''p'' [] [Text ''Find us: 123 Main St Noosa QLD 4567. Call (07) 5555 1234'']]"

definition example_phone_page :: node where
  "example_phone_page = Element ''[document]'' [] [Element ''p'' [] [Text ''Phone 07 5555 1234'']]"

text \<open>
  A network on which the page of the first region and every clinic page can be fetched,
  and a parser that reads the region page with the four anchors and, as every clinic
  page, the page with the bare phone number.
\<close>

definition example_parser :: parser where
  "example_parser c = (if c = ''region'' then Inr example_region_page else Inr example_phone_page)"

definition example_network :: network where
  "example_network k u =
     (if u = region_url_of ''sunshine-coast'' then Returned ''region''
      else if prefix BASE_URL u then Raised ''404 Client Error''
      else Returned ''clinic'')"

text \<open>
  A clinic page with a heading of level 2 that does not name the services, then, inside
  a block, the heading of the services, of level 3, followed by a text node, two service
  cards with a paragraph between them, the next heading of level 2 and a third card;
  after the block a second heading with the words of the services, and a card.
\<close>

definition example_cards :: "node list" where
  "example_cards =
     [Text '' '',
      Element ''article'' [] [Element ''h3'' [] [Element ''a'' [(''href'', ''/podiatry/'')] [Text ''Podiatry'']]],
      Element ''p'' [] [Text ''and''],
      Element ''article'' [] [Element ''div'' [] [Element ''h3'' [] [Text '' Orthotics '']]]]"

definition example_rest :: "node list" where
  "example_rest =
     [Element ''h2'' [] [Text ''Contact''],
      Element ''article'' [] [Element ''h3'' [] [Text ''Hidden'']]]"

definition example_services_page :: node where
  "example_services_page =
     Element ''[document]'' []
       [Element ''h2'' [] [Text ''About the clinic''],
        Element ''div'' []
          (Element ''h3'' [] [Text ''Services Available at Noosa''] # example_cards @ example_rest),
        Element ''h2'' [] [Text ''Services Available elsewhere''],
        Element ''article'' [] [Element ''h3'' [] [Text ''Massage'']]]"

text \<open>
  Two records, with a comma, a line feed and quotes in their fields, and the text of
  the file that holds them.
\<close>

definition example_records :: "clinic_record list" where
  "example_records =
     [\<lparr>Name_of_Clinic = ''Allsports Podiatry Noosa'',
       Address = ''Unit 4, 17 Sunshine Beach Rd'' @ [CHR 0x0A] @ ''Noosa QLD 4567'',
       Email = ''noosa@example.com'', Phone = ''(07) 5555 1234'', Services = ''Podiatry, Orthotics''\<rparr>,
      \<lparr>Name_of_Clinic = ''The '' @ [CHR 0x22] @ ''Foot'' @ [CHR 0x22] @ '' Clinic'',
       Address = [], Email = [], Phone = [], Services = []\<rparr>]"

definition example_file :: string where
  "example_file =
     ''Name of Clinic,Address,Email,Phone,Services'' @ [CHR 0x0D, CHR 0x0A] @
     ''Allsports Podiatry Noosa,'' @ [CHR 0x22] @ ''Unit 4, 17 Sunshine Beach Rd'' @ [CHR 0x0A] @
     ''Noosa QLD 4567'' @ [CHR 0x22] @ '',noosa@example.com,(07) 5555 1234,'' @
     [CHR 0x22] @ ''Podiatry, Orthotics'' @ [CHR 0x22] @ [CHR 0x0D, CHR 0x0A] @
     [CHR 0x22] @ ''The '' @ [CHR 0x22, CHR 0x22] @ ''Foot'' @ [CHR 0x22, CHR 0x22] @ '' Clinic'' @ [CHR 0x22] @
     '',,,,'' @ [CHR 0x0D, CHR 0x0A]"



section \<open>The Fetcher retries a bounded number of times\<close>

lemma upt_3: "[0..<3] = [0, Suc 0, 2]"
  by (simp add: upt_rec numeral_3_eq_3)

text \<open>
  C3.  Whatever the network does, \<^verbatim>\<open>get_page_content\<close> sends at most 3 requests, and
  the events it causes are requests to the given URL separated by pauses of one second,
  followed by the error line exactly when the result is \<^verbatim>\<open>None\<close>.  When the three
  attempts all raise, the result is \<^verbatim>\<open>None\<close>, after exactly three requests and two
  pauses.  The result is a value in every case: each exception of an attempt is caught
  by the \<^verbatim>\<open>except Exception\<close> clause, and none reaches the caller.
\<close>

theorem get_page_content_retries:
  "requests_in (snd (get_page_content net k u)) \<le> 3 \<and>
   (\<exists>j<3. snd (get_page_content net k u) =
        concat (replicate j [HttpGet u, Sleep 1000]) @ [HttpGet u] @
        (case fst (get_page_content net k u) of
           None \<Rightarrow> [Print (''  Error fetching URL '' @ u @ '': '' @ take 50 (error_text (net (k + 2) u)))]
         | Some text \<Rightarrow> [])) \<and>
   ((\<forall>i<3. is_raised (net (k + i) u)) \<longrightarrow>
      fst (get_page_content net k u) = None \<and>
      snd (get_page_content net k u) =
        [HttpGet u, Sleep 1000, HttpGet u, Sleep 1000, HttpGet u,
         Print (''  Error fetching URL '' @ u @ '': '' @ take 50 (error_text (net (k + 2) u)))])"
proof -
  consider (a) t where "net k u = Returned t"
    | (b) e t where "net k u = Raised e" "net (Suc k) u = Returned t"
    | (c) e e' t where "net k u = Raised e" "net (Suc k) u = Raised e'" "net (Suc (Suc k)) u = Returned t"
    | (d) e e' e'' where "net k u = Raised e" "net (Suc k) u = Raised e'" "net (Suc (Suc k)) u = Raised e''"
    by (metis outcome.exhaust)
  then show ?thesis
  proof cases
    case a
    have "is_raised (net (k + 0) u) = False" using a by simp
    then have n: "\<not> (\<forall>i<3. is_raised (net (k + i) u))" by (metis zero_less_numeral)
    show ?thesis using a n
      by (simp add: get_page_content_def upt_3 requests_in_def)
  next
    case b
    have "is_raised (net (k + 1) u) = False" using b by simp
    then have n: "\<not> (\<forall>i<3. is_raised (net (k + i) u))" by (metis one_less_numeral_iff semiring_norm(77))
    show ?thesis using b n
      by (simp add: get_page_content_def upt_3 requests_in_def) (rule exI[of _ 1], simp)
  next
    case c
    have "is_raised (net (k + 2) u) = False" using c by simp
    then have n: "\<not> (\<forall>i<3. is_raised (net (k + i) u))" by (metis lessI numeral_3_eq_3 numeral_2_eq_2)
    show ?thesis using c n
      by (simp add: get_page_content_def upt_3 requests_in_def) (rule exI[of _ 2], simp add: numeral_2_eq_2)
  next
    case d
    show ?thesis using d
      by (simp add: get_page_content_def upt_3 requests_in_def) (rule exI[of _ 2], simp add: numeral_2_eq_2)
  qed
qed

theorem get_page_content_retries_witness:
  "get_page_content (\<lambda>k u. Raised ''timed out'') 0 ''https://x/'' =
     (None, [HttpGet ''https://x/'', Sleep 1000, HttpGet ''https://x/'', Sleep 1000, HttpGet ''https://x/'',
             Print ''  Error fetching URL https://x/: timed out''])"
  using get_page_content_retries [of "\<lambda>k u. Raised ''timed out''" 0 "''https://x/''"]
  by (simp add: prod_eq_iff)

section \<open>Facts about strings and matches\<close>

lemma find_sub_char_None: "find_sub [c] s = None \<Longrightarrow> c \<notin> set s"
  by (induction s) (auto split: if_splits)

lemma find_sub_char_Some: "find_sub [c] s = Some i \<Longrightarrow> c \<notin> set (take i s)"
proof (induction s arbitrary: i)
  case Nil then show ?case by simp
next
  case (Cons d s)
  then show ?case by (cases i) (auto split: if_splits)
qed

lemma hd_split_char: "c \<notin> set (hd (py_split [c] s))"
proof (cases "find_sub [c] s")
  case None
  then show ?thesis using find_sub_char_None [of c s] by (simp add: py_split.simps [of "[c]" s])
next
  case (Some i)
  then show ?thesis using find_sub_char_Some [of c s i] by (simp add: py_split.simps [of "[c]" s])
qed

lemma set_strip: "set (strip s) \<subseteq> set s"
proof
  fix x assume "x \<in> set (strip s)"
  then have "x \<in> set (dropWhile py_isspace (rev (dropWhile py_isspace s)))" by (simp add: strip_def)
  then have "x \<in> set (rev (dropWhile py_isspace s))" by (rule set_dropWhileD)
  then have "x \<in> set (dropWhile py_isspace s)" by simp
  then show "x \<in> set s" by (rule set_dropWhileD)
qed

lemma try_alts_SomeD:
  "try_alts ic ls s k = Some r \<Longrightarrow> \<exists>l \<in> set ls. starts_with ic l s \<and> k (take (length l) s) (drop (length l) s) = Some r"
  by (induction ls) (auto split: option.splits if_splits)

lemma try_rep_SomeD:
  "try_rep n lo s k = Some r \<Longrightarrow> \<exists>j \<le> n. lo \<le> j \<and> k (take j s) (drop j s) = Some r"
proof (induction n)
  case 0
  then show ?case by (auto split: if_splits)
next
  case (Suc n)
  show ?case
  proof (cases "k (take (Suc n) s) (drop (Suc n) s)")
    case None
    then have "try_rep n lo s k = Some r" using Suc.prems by (simp split: if_splits)
    then show ?thesis using Suc.IH by (meson le_Suc_eq)
  next
    case (Some a)
    then have "a = r" "lo \<le> Suc n" using Suc.prems by (simp_all split: if_splits)
    then show ?thesis using Some by blast
  qed
qed

lemma re_search_SomeD: "re_search ic p s = Some m \<Longrightarrow> \<exists>i. match_items ic p (drop i s) = Some m"
proof (induction s)
  case Nil
  then show ?case by simp
next
  case (Cons c cs)
  show ?case
  proof (cases "match_items ic p (c # cs)")
    case None
    then obtain i where "match_items ic p (drop i cs) = Some m" using Cons by auto
    then have "match_items ic p (drop (Suc i) (c # cs)) = Some m" by simp
    then show ?thesis by blast
  next
    case (Some a)
    then have "match_items ic p (drop 0 (c # cs)) = Some m" using Cons.prems by simp
    then show ?thesis by blast
  qed
qed

lemma take_run_length: "j \<le> run_length P hi s \<Longrightarrow> \<forall>c \<in> set (take j s). P c"
proof -
  assume "j \<le> run_length P hi s"
  then have "j \<le> length (takeWhile P s)" by (auto simp: run_length_def split: option.splits)
  then have "take j s = take j (takeWhile P s)"
    by (metis takeWhile_eq_take take_take min.absorb1 min.commute)
  then show ?thesis by (metis in_set_takeD set_takeWhileD)
qed

lemma match_items_LitD:
  assumes "match_items ic (Lit l # rest) s = Some m"
  shows "starts_with ic l s \<and> (\<exists>m'. m = take (length l) s # m' \<and> match_items ic rest (drop (length l) s) = Some m')"
proof -
  have "try_alts ic [l] s (\<lambda>m s'. map_option ((#) m) (match_items ic rest s')) = Some m"
    using assms by simp
  from try_alts_SomeD [OF this] show ?thesis by auto
qed

lemma match_items_AltD:
  assumes "match_items ic (Alt ls # rest) s = Some m"
  shows "\<exists>l \<in> set ls. starts_with ic l s \<and> (\<exists>m'. m = take (length l) s # m' \<and> match_items ic rest (drop (length l) s) = Some m')"
proof -
  have "try_alts ic ls s (\<lambda>m s'. map_option ((#) m) (match_items ic rest s')) = Some m"
    using assms by simp
  from try_alts_SomeD [OF this] show ?thesis by auto
qed

lemma match_items_RepD:
  assumes "match_items ic (Rep neg cl lo hi # rest) s = Some m"
  shows "\<exists>j m'. lo \<le> j \<and> j \<le> run_length (in_class neg cl) hi s \<and> m = take j s # m' \<and>
           match_items ic rest (drop j s) = Some m'"
proof -
  have "try_rep (run_length (in_class neg cl) hi s) lo s (\<lambda>m s'. map_option ((#) m) (match_items ic rest s')) = Some m"
    using assms by simp
  from try_rep_SomeD [OF this] show ?thesis by auto
qed

lemma starts_with_exact: "starts_with False l s \<Longrightarrow> take (length l) s = l"
  by (induction False l s rule: starts_with.induct) (auto simp: same_char_def split: if_splits)

lemma run_length_le: "run_length P hi s \<le> length s"
  by (auto simp: run_length_def split: option.splits intro: order_trans [OF _ length_takeWhile_le] min.coboundedI2)

lemma slug_match:
  assumes "re_search False (fst slug_pattern) href = Some m"
  shows "\<exists>g. group slug_pattern m 1 = Inr g \<and> g \<noteq> [] \<and> CHR ''/'' \<notin> set g"
proof -
  obtain i where "match_items False (fst slug_pattern) (drop i href) = Some m"
    using re_search_SomeD [OF assms] by blast
  then have 0: "match_items False (Lit ''/our-clinics/'' # [Rep True [Chr CHR ''/''] 1 None, Lit ''/'']) (drop i href) = Some m"
    by (simp only: slug_pattern_def fst_conv)
  from match_items_LitD [OF 0] obtain s1 m1 where m: "m = ''/our-clinics/'' # m1"
     and 2: "match_items False (Rep True [Chr CHR ''/''] 1 None # [Lit ''/'']) s1 = Some m1"
    using starts_with_exact by metis
  from match_items_RepD [OF 2] obtain j m2 where j: "j \<le> run_length (in_class True [Chr CHR ''/'']) None s1" "1 \<le> j"
      and m1: "m1 = take j s1 # m2" and 4: "match_items False (Lit ''/'' # []) (drop j s1) = Some m2" by blast
  from match_items_LitD [OF 4] have m2: "length m2 = 1" by auto
  have len: "j \<le> length s1" using j(1) run_length_le order_trans by blast
  have "\<forall>c \<in> set (take j s1). in_class True [Chr CHR ''/''] c" using take_run_length [OF j(1)] .
  then have ns: "CHR ''/'' \<notin> set (take j s1)" by (auto simp: in_class_def)
  have ne: "take j s1 \<noteq> []" using j(2) len by (cases s1) auto
  obtain x where "m2 = [x]" using m2 by (cases m2) auto
  then show ?thesis using m m1 ns ne
    by (simp add: group_def slug_pattern_def span_text_def numeral_2_eq_2)
qed

lemma clinic_slug_no_slash:
  "\<exists>g. clinic_slug_of href = Inr g \<and> CHR ''/'' \<notin> set g"
proof (cases "re_search False (fst slug_pattern) href")
  case None
  then show ?thesis using hd_split_char [of "CHR ''/''"] set_strip
    by (auto simp: clinic_slug_of_def Let_def)
next
  case (Some m)
  then show ?thesis using slug_match [OF Some] by (auto simp: clinic_slug_of_def)
qed

lemma prefix_count:
  "prefix p x \<Longrightarrow> length (filter P p) \<le> length (filter P x)"
  by (auto simp: prefix_def)

lemma find_sub_slug:
  "CHR ''/'' \<notin> set g \<Longrightarrow> find_sub prefix_to_remove (g @ ''/'') = None"
proof (induction g)
  case Nil
  show ?case by (simp add: prefix_to_remove_def)
next
  case (Cons c g)
  have "filter (\<lambda>c. c = CHR ''/'') (c # g) = []"
    using Cons.prems by (auto simp: filter_empty_conv)
  then have "filter (\<lambda>c. c = CHR ''/'') ((c # g) @ ''/'') = ''/''"
    by (simp only: filter_append) simp
  then have one: "length (filter (\<lambda>c. c = CHR ''/'') (c # g @ ''/'')) = 1"
    by simp
  have five: "length (filter (\<lambda>c. c = CHR ''/'') prefix_to_remove) = 5"
    by (simp add: prefix_to_remove_def)
  have "\<not> prefix prefix_to_remove (c # g @ ''/'')"
  proof
    assume "prefix prefix_to_remove (c # g @ ''/'')"
    from prefix_count [OF this, of "\<lambda>c. c = CHR ''/''"] show False
      unfolding one five by simp
  qed
  moreover have "find_sub prefix_to_remove (g @ ''/'') = None"
    using Cons by simp
  ultimately show ?case by simp
qed

lemma find_sub_prefix: "find_sub p (p @ r) = Some 0"
  by (cases "p @ r") (simp_all add: prefix_def, metis)

lemma py_replace_prefix: "p \<noteq> [] \<Longrightarrow> py_replace p n (p @ r) = n @ py_replace p n r"
  by (subst py_replace.simps) (simp add: find_sub_prefix)

lemma py_replace_none: "find_sub p s = None \<Longrightarrow> py_replace p n s = s"
  by (subst py_replace.simps) simp

lemma find_sub_live:
  assumes "CHR ''/'' \<notin> set g"
  shows "find_sub prefix_to_remove (''https://www.myfootdr.com.au/our-clinics/'' @ g @ ''/'') = None"
proof -
  have "find_sub ''https://web.archive.org/web/20250708180027/'' (g @ ''/'') = None"
    using find_sub_slug [OF assms] by (simp only: prefix_to_remove_def)
  then show ?thesis by (simp add: prefix_to_remove_def)
qed

lemma clinic_url_form:
  assumes "CHR ''/'' \<notin> set g"
  shows "py_replace prefix_to_remove [] (build_clinic_url (''our-clinics/'' @ g @ ''/''))
           = ''https://www.myfootdr.com.au/our-clinics/'' @ g @ ''/''"
proof -
  define rest where "rest = ''https://www.myfootdr.com.au/our-clinics/'' @ g @ ''/''"
  have b: "build_clinic_url (''our-clinics/'' @ g @ ''/'') = prefix_to_remove @ rest"
    by (simp add: build_clinic_url_def BASE_URL_def lstrip_chars_def prefix_to_remove_def rest_def)
  have ne: "prefix_to_remove \<noteq> []" by (simp add: prefix_to_remove_def)
  have "find_sub prefix_to_remove rest = None"
    unfolding rest_def by (rule find_sub_live [OF assms])
  then have "py_replace prefix_to_remove [] rest = rest" by (rule py_replace_none)
  then have "py_replace prefix_to_remove [] (prefix_to_remove @ rest) = rest"
    using py_replace_prefix [OF ne, of "[]" rest] by simp
  then show ?thesis unfolding b rest_def .
qed

section \<open>The Region Lister\<close>

lemma remove_duplicates_gen:
  "remove_duplicates cs seen u =
     u @ [cs ! i. i \<leftarrow> [0..<length cs], url (cs ! i) \<notin> seen \<union> url ` set (take i cs)]"
proof (induction cs arbitrary: seen u)
  case Nil
  then show ?case by simp
next
  case (Cons c cs)
  have upt: "[0..<length (c # cs)] = 0 # map Suc [0..<length cs]"
    by (simp add: upt_conv_Cons map_Suc_upt del: upt_Suc)
  show ?case
  proof (cases "url c \<in> seen")
    case True
    then have "\<And>x Q. (x \<notin> seen \<and> x \<noteq> url c \<and> Q) = (x \<notin> seen \<and> Q)" by auto
    then show ?thesis using True Cons.IH [of seen u]
      unfolding upt by (simp add: o_def cong del: if_weak_cong)
  next
    case False
    then show ?thesis using Cons.IH [of "insert (url c) seen" "u @ [c]"]
      unfolding upt by (simp add: o_def conj_left_commute cong del: if_weak_cong)
  qed
qed

lemma remove_duplicates_first_seen: "remove_duplicates cs {} [] = first_seen cs"
  by (simp add: remove_duplicates_gen first_seen_def)

lemma remove_duplicates_distinct:
  "distinct (map url u) \<Longrightarrow> url ` set u \<subseteq> seen \<Longrightarrow> distinct (map url (remove_duplicates cs seen u))"
proof (induction cs arbitrary: seen u)
  case Nil
  then show ?case by simp
next
  case (Cons c cs)
  show ?case
  proof (cases "url c \<in> seen")
    case True
    then show ?thesis using Cons by simp
  next
    case False
    have "distinct (map url (u @ [c]))" using Cons.prems False by auto
    moreover have "url ` set (u @ [c]) \<subseteq> insert (url c) seen" using Cons.prems by auto
    ultimately show ?thesis using Cons.IH False by simp
  qed
qed

lemma anchor_link_url:
  assumes "anchor_link a = Inr (Some l)"
  shows "\<exists>slug. clinic_slug_of (or_else (attr_get a ''href'') []) = Inr slug \<and> slug \<noteq> [] \<and>
           CHR ''/'' \<notin> set slug \<and>
           url l = ''https://www.myfootdr.com.au/our-clinics/'' @ slug @ ''/''"
proof -
  obtain g where g: "clinic_slug_of (or_else (attr_get a ''href'') []) = Inr g" "CHR ''/'' \<notin> set g"
    using clinic_slug_no_slash by blast
  have "g \<noteq> [] \<and> url l = py_replace prefix_to_remove [] (build_clinic_url (''our-clinics/'' @ g @ ''/''))"
    using assms g(1) by (auto simp: anchor_link_def Let_def split: if_splits)
  then show ?thesis using g clinic_url_form [OF g(2)] by simp
qed

lemma collect_links_set:
  "collect_links as acc = Inr cs \<Longrightarrow> l \<in> set cs \<Longrightarrow> l \<in> set acc \<or> (\<exists>a \<in> set as. anchor_link a = Inr (Some l))"
proof (induction as arbitrary: acc)
  case Nil
  then show ?case by simp
next
  case (Cons a as)
  show ?case
  proof (cases "anchor_link a")
    case (Inl e)
    then show ?thesis using Cons.prems by simp
  next
    case (Inr r)
    show ?thesis
    proof (cases r)
      case None
      then show ?thesis using Cons Inr by auto
    next
      case (Some c)
      then have "collect_links as (acc @ [c]) = Inr cs" using Cons.prems Inr by simp
      from Cons.IH [OF this Cons.prems(2)] show ?thesis using Inr Some by auto
    qed
  qed
qed

lemma remove_duplicates_set: "set (remove_duplicates cs seen u) \<subseteq> set u \<union> set cs"
proof (induction cs arbitrary: seen u)
  case Nil
  then show ?case by simp
next
  case (Cons c cs)
  show ?case using Cons.IH [of "insert (url c) seen" "u @ [c]"] Cons.IH [of seen u]
    by (cases "url c \<in> seen") auto
qed

lemma get_page_loop_gets:
  "e \<in> set (snd (get_page_loop net u mr as k)) \<Longrightarrow> is_get e \<Longrightarrow> e = HttpGet u"
proof (induction as arbitrary: k e)
  case Nil
  then show ?case by simp
next
  case (Cons a as)
  show ?case
  proof (cases "net k u")
    case (Returned t)
    then show ?thesis using Cons.prems by simp
  next
    case (Raised x)
    show ?thesis
    proof (cases "a < mr - 1")
      case True
      obtain r evs where r: "get_page_loop net u mr as (Suc k) = (r, evs)" by (cases "get_page_loop net u mr as (Suc k)")
      then have "e = HttpGet u \<or> e \<in> set evs" using Cons.prems Raised True by auto
      then show ?thesis using Cons.IH [of e "Suc k"] r Cons.prems(2) by auto
    next
      case False
      then show ?thesis using Cons.prems Raised by auto
    qed
  qed
qed

lemma get_page_content_gets:
  "e \<in> set (snd (get_page_content net k u)) \<Longrightarrow> is_get e \<Longrightarrow> e = HttpGet u"
  unfolding get_page_content_def by (rule get_page_loop_gets)

lemma extract_clinic_details_gets:
  assumes "e \<in> set (snd (extract_clinic_details parse net k u nm))" "is_get e"
  shows "e = HttpGet u"
proof -
  obtain c evs where g: "get_page_content net k u = (c, evs)" by (cases "get_page_content net k u")
  have "e \<in> set evs"
    using assms by (auto simp: extract_clinic_details_def g split: sum.splits option.splits)
  then show ?thesis using get_page_content_gets [of e net k u] g assms(2) by simp
qed

lemma region_links_from_anchors:
  assumes "fst (extract_clinics_from_region parse net k region) = Inr links" "l \<in> set links"
  shows "\<exists>a. anchor_link a = Inr (Some l)"
proof -
  obtain c evs where g: "get_page_content net k (region_url_of region) = (c, evs)"
    by (cases "get_page_content net k (region_url_of region)")
  from assms obtain soup clinics where "collect_links (anchors soup) [] = Inr clinics"
      "links = remove_duplicates clinics {} []"
    by (auto simp: extract_clinics_from_region_def g Let_def split: option.splits if_splits sum.splits)
  then show ?thesis using collect_links_set [of "anchors soup" "[]" clinics l] remove_duplicates_set [of clinics "{}" "[]"] assms(2)
    by auto
qed

text \<open>
  C2.  The link that the Region Lister makes of an accepted anchor has the URL
  \<^verbatim>\<open>https://www.myfootdr.com.au/our-clinics/<slug>/\<close>, which is the URL built on the
  archival base with the prefix \<^verbatim>\<open>https://web.archive.org/web/20250708180027/\<close>
  removed.  It does not start with that prefix, while the URL of every region page
  does; and every request that the Detail Extractor sends for the link goes to this URL.
\<close>

theorem clinic_links_point_to_live_site:
  assumes "anchor_link a = Inr (Some l)"
  shows "(\<exists>slug. clinic_slug_of (or_else (attr_get a ''href'') []) = Inr slug \<and> slug \<noteq> [] \<and>
            url l = py_replace prefix_to_remove [] (build_clinic_url (''our-clinics/'' @ slug @ ''/'')) \<and>
            url l = ''https://www.myfootdr.com.au/our-clinics/'' @ slug @ ''/'') \<and>
         \<not> prefix prefix_to_remove (url l) \<and>
         prefix prefix_to_remove (region_url_of region) \<and>
         (\<forall>e \<in> set (snd (extract_clinic_details parse net k (url l) (name l))). is_get e \<longrightarrow> e = HttpGet (url l))"
proof -
  obtain slug where s: "clinic_slug_of (or_else (attr_get a ''href'') []) = Inr slug" "slug \<noteq> []"
      "CHR ''/'' \<notin> set slug" "url l = ''https://www.myfootdr.com.au/our-clinics/'' @ slug @ ''/''"
    using anchor_link_url [OF assms] by blast
  have 1: "url l = py_replace prefix_to_remove [] (build_clinic_url (''our-clinics/'' @ slug @ ''/''))"
    using s(4) clinic_url_form [OF s(3)] by simp
  have 2: "\<not> prefix prefix_to_remove (url l)"
    unfolding s(4) by (simp add: prefix_to_remove_def)
  have 3: "prefix prefix_to_remove (region_url_of region)"
    by (simp add: prefix_to_remove_def region_url_of_def BASE_URL_def)
  have 4: "\<forall>e \<in> set (snd (extract_clinic_details parse net k (url l) (name l))). is_get e \<longrightarrow> e = HttpGet (url l)"
    using extract_clinic_details_gets by blast
  show ?thesis using s 1 2 3 4 by blast
qed

theorem clinic_links_point_to_live_site_witness:
  "anchor_link example_anchor = Inr (Some (hd example_links)) \<and>
   \<not> prefix prefix_to_remove (url (hd example_links)) \<and>
   prefix prefix_to_remove (region_url_of ''brisbane'')"
proof -
  have h: "anchor_link example_anchor = Inr (Some (hd example_links))"
    by code_simp
  from clinic_links_point_to_live_site [OF h, of "''brisbane''"] h show ?thesis
    by (simp only: simp_thms)
qed

text \<open>
  C6.  The links that the Region Lister returns for a region have pairwise different
  URLs.  When the region page was fetched and parsed they are the links discovered on
  the page whose URL had not been seen before, in the order of discovery; when the page
  could not be fetched, or is empty, there are none.
\<close>

theorem region_lister_first_seen:
  assumes "fst (extract_clinics_from_region parse net k region) = Inr links"
  shows "distinct (map url links) \<and>
         (\<forall>c soup clinics.
             fst (get_page_content net k (region_url_of region)) = Some c \<and> c \<noteq> [] \<and>
             parse c = Inr soup \<and> collect_links (anchors soup) [] = Inr clinics
             \<longrightarrow> links = first_seen clinics) \<and>
         (fst (get_page_content net k (region_url_of region)) \<in> {None, Some []} \<longrightarrow> links = [])"
proof -
  obtain c evs where g: "get_page_content net k (region_url_of region) = (c, evs)"
    by (cases "get_page_content net k (region_url_of region)")
  have 3: "c \<in> {None, Some []} \<longrightarrow> links = []"
    using assms by (auto simp: extract_clinics_from_region_def g Let_def)
  have 2: "links = first_seen clinics"
    if "c = Some c'" "c' \<noteq> []" "parse c' = Inr soup" "collect_links (anchors soup) [] = Inr clinics"
    for c' soup clinics
    using assms that by (simp add: extract_clinics_from_region_def g Let_def remove_duplicates_first_seen)
  have 1: "distinct (map url links)"
  proof (cases "links = []")
    case True
    then show ?thesis by simp
  next
    case False
    with assms obtain clinics where "links = remove_duplicates clinics {} []"
      by (auto simp: extract_clinics_from_region_def g Let_def split: option.splits if_splits sum.splits)
    then show ?thesis by (simp add: remove_duplicates_distinct)
  qed
  show ?thesis using 1 2 3 g by simp
qed

theorem region_lister_first_seen_witness:
  "fst (extract_clinics_from_region (\<lambda>c. Inr example_region_page) (\<lambda>k u. Returned ''<html>'') 0 ''brisbane'')
     = Inr example_links \<and>
   distinct (map url example_links)"
proof -
  have h: "fst (extract_clinics_from_region (\<lambda>c. Inr example_region_page) (\<lambda>k u. Returned ''<html>'') 0 ''brisbane'')
             = Inr example_links"
    by code_simp
  from region_lister_first_seen [OF h] h show ?thesis
    by (simp only: simp_thms)
qed

section \<open>The Orchestrator\<close>

lemma get_page_loop_no_file:
  "\<not> list_ex is_file_event (snd (get_page_loop net u mr as k))"
proof (induction as arbitrary: k)
  case Nil
  then show ?case by simp
next
  case (Cons a as)
  obtain r evs where r: "get_page_loop net u mr as (Suc k) = (r, evs)"
    by (cases "get_page_loop net u mr as (Suc k)")
  then have "\<not> list_ex is_file_event evs" using Cons [of "Suc k"] by simp
  then show ?case using r by (cases "net k u") auto
qed

lemma get_page_content_no_file: "\<not> list_ex is_file_event (snd (get_page_content net k u))"
  unfolding get_page_content_def by (rule get_page_loop_no_file)

lemma region_no_file:
  "extract_clinics_from_region parse net k r = (res, evs) \<Longrightarrow> \<not> list_ex is_file_event evs"
proof -
  assume a: "extract_clinics_from_region parse net k r = (res, evs)"
  obtain c evs0 where g: "get_page_content net k (region_url_of r) = (c, evs0)"
    by (cases "get_page_content net k (region_url_of r)")
  then have "\<not> list_ex is_file_event evs0" using get_page_content_no_file [of net k "region_url_of r"] by simp
  then show ?thesis using a
    by (auto simp: extract_clinics_from_region_def g Let_def split: option.splits sum.splits if_splits)
qed

lemma details_no_file:
  "extract_clinic_details parse net k u nm = (res, evs) \<Longrightarrow> \<not> list_ex is_file_event evs"
proof -
  assume a: "extract_clinic_details parse net k u nm = (res, evs)"
  obtain c evs0 where g: "get_page_content net k u = (c, evs0)"
    by (cases "get_page_content net k u")
  then have "\<not> list_ex is_file_event evs0" using get_page_content_no_file [of net k u] by simp
  then show ?thesis using a
    by (auto simp: extract_clinic_details_def g Let_def split: option.splits sum.splits)
qed

lemma listing_no_file:
  "listing parse net rs k acc = (res, evs) \<Longrightarrow> \<not> list_ex is_file_event evs"
proof (induction rs arbitrary: k acc res evs)
  case Nil
  then show ?case by simp
next
  case (Cons r rs)
  then show ?case
    by (auto split: prod.splits sum.splits dest: region_no_file)
qed

lemma detailing_no_file:
  "detailing parse net cs i n k acc = (res, evs) \<Longrightarrow> \<not> list_ex is_file_event evs"
proof (induction cs arbitrary: i k acc res evs)
  case Nil
  then show ?case by simp
next
  case (Cons c cs)
  obtain cd s f where acc: "acc = (cd, s, f)" by (cases acc)
  show ?case using Cons.prems unfolding acc
    by (auto simp: Let_def split: prod.splits sum.splits option.splits dest: details_no_file Cons.IH)
qed

text \<open>
  C9.  When no record was collected, in particular when no clinic was discovered in any
  region, the run ends normally, its last line on the console is
  \<^verbatim>\<open>No clinic data found!\<close>, and none of its events opens or writes the output file.
\<close>

theorem no_data_no_file:
  assumes "listing parse net REGIONS 0 [] = (all_clinics, evs1)"
      and "detailing parse net all_clinics 1 (length all_clinics) (requests_in evs1) ([], 0, 0) = (res, evs2)"
      and "all_clinics = [] \<or> (\<exists>successful failed. res = Inr ([], successful, failed))"
  shows "fst (scrape_all_clinics parse net) = None \<and>
         \<not> list_ex is_file_event (snd (scrape_all_clinics parse net)) \<and>
         last (snd (scrape_all_clinics parse net)) = Print ''No clinic data found!'' \<and>
         written (snd (scrape_all_clinics parse net)) = []"
proof -
  obtain successful failed where res: "res = Inr ([], successful, failed)"
    using assms(2,3) by auto
  have 1: "\<not> list_ex is_file_event evs1" using listing_no_file [OF assms(1)] .
  have 2: "\<not> list_ex is_file_event evs2" using detailing_no_file [OF assms(2)] .
  have w: "\<And>evs. \<not> list_ex is_file_event evs \<Longrightarrow> written evs = []"
  proof -
    fix evs show "\<not> list_ex is_file_event evs \<Longrightarrow> written evs = []"
      by (induction evs rule: written.induct) auto
  qed
  have s: "scrape_all_clinics parse net =
          (None, Print (''Starting clinic data scraper...'' @ [LF]) # evs1 @
                [Print ([LF, LF] @ ''Total clinics discovered: '' @ str_nat (length all_clinics)),
                 PrintLinks all_clinics,
                 Print (''Now fetching individual clinic details...'' @ [LF])] @ evs2 @ [Print ''No clinic data found!''])"
    using assms(1,2) res by (simp add: scrape_all_clinics_def writing_def)
  have n: "\<not> list_ex is_file_event (snd (scrape_all_clinics parse net))"
    unfolding s using 1 2 by simp
  show ?thesis using n w [OF n] unfolding s by simp
qed


theorem no_data_no_file_witness:
  "fst (scrape_all_clinics (\<lambda>c. Inl ''unused'') (\<lambda>k u. Raised ''connection refused'')) = None \<and>
   \<not> list_ex is_file_event (snd (scrape_all_clinics (\<lambda>c. Inl ''unused'') (\<lambda>k u. Raised ''connection refused''))) \<and>
   last (snd (scrape_all_clinics (\<lambda>c. Inl ''unused'') (\<lambda>k u. Raised ''connection refused'')))
     = Print ''No clinic data found!''"
proof -
  obtain ac evs1 where l: "listing (\<lambda>c. Inl ''unused'') (\<lambda>k u. Raised ''connection refused'') REGIONS 0 [] = (ac, evs1)"
    by (cases "listing (\<lambda>c. Inl ''unused'') (\<lambda>k u. Raised ''connection refused'') REGIONS 0 []")
  have "fst (listing (\<lambda>c. Inl ''unused'') (\<lambda>k u. Raised ''connection refused'') REGIONS 0 []) = []"
    by code_simp
  then have e: "ac = []" using l by simp
  obtain res evs2 where d: "detailing (\<lambda>c. Inl ''unused'') (\<lambda>k u. Raised ''connection refused'') ac 1 (length ac) (requests_in evs1) ([], 0, 0) = (res, evs2)"
    by (cases "detailing (\<lambda>c. Inl ''unused'') (\<lambda>k u. Raised ''connection refused'') ac 1 (length ac) (requests_in evs1) ([], 0, 0)")
  from no_data_no_file [OF l d] e show ?thesis by simp
qed

section \<open>The Clinic Detail Extractor\<close>

lemma second_phone_pattern_raises:
  assumes "re_search True (fst (snd (phone_patterns ! 0))) t = None"
      and "re_search True (fst (snd (phone_patterns ! 1))) t = Some m"
  shows "phone_loop phone_patterns t [] = Inl (IndexError ''no such group'')"
  using assms by (simp add: phone_patterns_def raw_def group_def)

text \<open>
  C1.  On a page whose text is \<^verbatim>\<open>Phone 07 5555 1234\<close> the first phone pattern has no
  match and the second one matches.  The source text of the second pattern contains
  \<^verbatim>\<open>(\<close>, so the loop asks the match for group 1, which the pattern does not have: the
  extractor does not return a record, it ends with \<^verbatim>\<open>IndexError\<close>.
\<close>

theorem bare_phone_number_raises:
  "re_search True (fst (snd (phone_patterns ! 0))) (get_text example_phone_page) = None \<and>
   re_search True (fst (snd (phone_patterns ! 1))) (get_text example_phone_page)
     = Some ['' '', ''0'', ''7'', '' 5555 1234''] \<and>
   extract_clinic_details (\<lambda>c. Inr example_phone_page) (\<lambda>k u. Returned ''<html>'') 0
       ''https://www.myfootdr.com.au/our-clinics/noosa/'' ''Noosa Clinic''
     = (Inl (IndexError ''no such group''), [HttpGet ''https://www.myfootdr.com.au/our-clinics/noosa/''])"
proof -
  have 1: "re_search True (fst (snd (phone_patterns ! 0))) (get_text example_phone_page) = None"
    by code_simp
  have 2: "re_search True (fst (snd (phone_patterns ! 1))) (get_text example_phone_page)
             = Some ['' '', ''0'', ''7'', '' 5555 1234'']"
    by code_simp
  have 3: "phone_loop phone_patterns (get_text example_phone_page) [] = Inl (IndexError ''no such group'')"
    using second_phone_pattern_raises [OF 1 2] .
  have 4: "get_page_content (\<lambda>k u. Returned ''<html>'') 0 ''https://www.myfootdr.com.au/our-clinics/noosa/''
             = (Some ''<html>'', [HttpGet ''https://www.myfootdr.com.au/our-clinics/noosa/''])"
    by (simp add: get_page_content_def upt_3)
  have "extract_clinic_details (\<lambda>c. Inr example_phone_page) (\<lambda>k u. Returned ''<html>'') 0
       ''https://www.myfootdr.com.au/our-clinics/noosa/'' ''Noosa Clinic''
     = (Inl (IndexError ''no such group''), [HttpGet ''https://www.myfootdr.com.au/our-clinics/noosa/''])"
    by (simp add: extract_clinic_details_def 4 extract_fields_def 3)
  then show ?thesis using 1 2 by simp
qed

text \<open>
  C4.  A run in which a clinic page is fetched and parsed, and holds a phone number
  without the word \<^verbatim>\<open>Call\<close>: the extractor raises, the loop over the clinics does not
  catch it, and the run ends with the exception, without a record and without a file.
\<close>

theorem fetched_and_parsed_page_without_record:
  "fst (get_page_content example_network 31 (url (hd example_links))) = Some ''clinic'' \<and>
   example_parser ''clinic'' = Inr example_phone_page \<and>
   fst (listing example_parser example_network REGIONS 0 []) = example_links \<and>
   fst (scrape_all_clinics example_parser example_network) = Some (IndexError ''no such group'') \<and>
   \<not> list_ex is_file_event (snd (scrape_all_clinics example_parser example_network))"
  by code_simp

text \<open>
  C5.  The record that the extractor returns carries the name it was given.  Its address
  is the value of the override table for that name, when the table has one, and the
  address found on the page otherwise.
\<close>

theorem override_replaces_address:
  assumes "fst (extract_clinic_details parse net k u nm) = Inr (Some d)"
  shows "\<exists>c soup addr. fst (get_page_content net k u) = Some c \<and> parse c = Inr soup \<and>
           address_loop address_patterns (get_text soup) [] = Inr addr \<and>
           Name_of_Clinic d = nm \<and>
           Address d = (case map_of ADDRESS_OVERRIDES nm of Some override \<Rightarrow> override | None \<Rightarrow> addr)"
proof -
  obtain c evs where g: "get_page_content net k u = (c, evs)" by (cases "get_page_content net k u")
  from assms obtain c' soup where c: "c = Some c'" "parse c' = Inr soup" and f: "extract_fields soup nm = Inr d"
    by (auto simp: extract_clinic_details_def g Let_def split: option.splits sum.splits)
  from f obtain phone email addr where a: "address_loop address_patterns (get_text soup) [] = Inr addr"
    and d: "d = apply_override ADDRESS_OVERRIDES \<lparr>Name_of_Clinic = nm, Address = addr, Email = email,
                            Phone = phone, Services = extract_services soup\<rparr>"
    by (auto simp: extract_fields_def Let_def split: sum.splits)
  have "Name_of_Clinic d = nm \<and> Address d = (case map_of ADDRESS_OVERRIDES nm of Some override \<Rightarrow> override | None \<Rightarrow> addr)"
    unfolding d by (simp add: apply_override_def ADDRESS_OVERRIDES_def)
  then show ?thesis using g c a by auto
qed

theorem override_replaces_address_witness:
  "fst (extract_clinic_details (\<lambda>c. Inr example_clinic_page) (\<lambda>k u. Returned ''<html>'') 0
          ''https://www.myfootdr.com.au/our-clinics/noosa/'' ''Allsports Podiatry Noosa'')
     = Inr (Some \<lparr>Name_of_Clinic = ''Allsports Podiatry Noosa'',
                  Address = ''Unit 4, 17 Sunshine Beach Rd'' @ [CHR 0x0A] @ ''Noosa QLD 4567'',
                  Email = [], Phone = ''(07) 5555 1234'', Services = []\<rparr>) \<and>
   address_loop address_patterns (get_text example_clinic_page) [] = Inr ''123 Main St Noosa QLD 4567'' \<and>
   map_of ADDRESS_OVERRIDES ''Allsports Podiatry Noosa''
     = Some (''Unit 4, 17 Sunshine Beach Rd'' @ [CHR 0x0A] @ ''Noosa QLD 4567'')"
proof -
  have h: "fst (extract_clinic_details (\<lambda>c. Inr example_clinic_page) (\<lambda>k u. Returned ''<html>'') 0
          ''https://www.myfootdr.com.au/our-clinics/noosa/'' ''Allsports Podiatry Noosa'')
     = Inr (Some \<lparr>Name_of_Clinic = ''Allsports Podiatry Noosa'',
                  Address = ''Unit 4, 17 Sunshine Beach Rd'' @ [CHR 0x0A] @ ''Noosa QLD 4567'',
                  Email = [], Phone = ''(07) 5555 1234'', Services = []\<rparr>)"
    by code_simp
  have a: "address_loop address_patterns (get_text example_clinic_page) [] = Inr ''123 Main St Noosa QLD 4567''"
    by code_simp
  have t: "map_of ADDRESS_OVERRIDES ''Allsports Podiatry Noosa''
     = Some (''Unit 4, 17 Sunshine Beach Rd'' @ [CHR 0x0A] @ ''Noosa QLD 4567'')"
    by (simp add: ADDRESS_OVERRIDES_def)
  from override_replaces_address [OF h] h a t show ?thesis by simp
qed

lemma walk_siblings_no_h2:
  "\<forall>n \<in> set pre. \<not> is_tag [''h2''] n \<Longrightarrow>
   walk_siblings pre acc = acc @ List.map_filter service_name (filter (is_tag [''article'']) pre)"
proof (induction pre acc rule: walk_siblings.induct)
  case (1 services)
  then show ?case by (simp add: map_filter_simps)
next
  case (2 s rest services)
  then show ?case by simp
next
  case (3 t as cs rest services)
  then show ?case
    by (auto simp: service_name_def Let_def map_filter_simps split: option.splits)
qed

lemma walk_siblings_stops:
  "\<forall>n \<in> set pre. \<not> is_tag [''h2''] n \<Longrightarrow>
   walk_siblings (pre @ Element ''h2'' as cs # rest) acc = walk_siblings pre acc"
proof (induction pre acc rule: walk_siblings.induct)
  case (1 services)
  then show ?case by simp
next
  case (2 s rest services)
  then show ?case by simp
next
  case (3 t as cs rest services)
  then show ?case
    by (auto simp: Let_def split: option.splits)
qed

lemma md1: "re_sub False (fst markdown_link) (span_text (snd markdown_link ! 0)) ''Podiatry'' = ''Podiatry''"
  by code_simp
lemma md2: "re_sub False (fst markdown_link) (span_text (snd markdown_link ! 0)) ''Orthotics'' = ''Orthotics''"
  by code_simp


lemma extract_services_eq:
  assumes "fst (extract_clinic_details parse net k u nm) = Inr (Some d)"
    and "fst (get_page_content net k u) = Some c" and "parse c = Inr soup"
  shows "Services d = extract_services soup"
proof -
  obtain c0 evs where g: "get_page_content net k u = (c0, evs)" by (cases "get_page_content net k u")
  from assms g have f: "extract_fields soup nm = Inr d"
    by (auto simp: extract_clinic_details_def Let_def split: option.splits sum.splits)
  then show ?thesis
    by (auto simp: extract_fields_def Let_def apply_override_def split: sum.splits option.splits)
qed

lemma services_heading_skip:
  "\<forall>n \<in> set (document_order before). \<not> is_services_heading n \<Longrightarrow>
   services_heading (before @ rest) = services_heading rest"
proof (induction before arbitrary: rest rule: services_heading.induct)
  case 1
  then show ?case by simp
next
  case (2 s ns)
  then show ?case by (simp add: document_order_def)
next
  case (3 t as cs ns)
  have a: "\<not> is_services_heading (Element t as cs)"
    and b: "\<forall>n \<in> set (document_order cs). \<not> is_services_heading n"
    and c: "\<forall>n \<in> set (document_order ns). \<not> is_services_heading n"
    using "3.prems" by (auto simp: document_order_def)
  have n: "\<not> (t \<in> set [''h2'', ''h3''] \<and> contains ''Services Available'' (get_text (Element t as cs)))"
    using a by (simp add: is_services_heading_def)
  have "services_heading (cs @ []) = services_heading []" using "3.IH"(1) [OF n b, of "[]"] .
  then have cs: "services_heading cs = None" by simp
  have "services_heading (ns @ rest) = services_heading rest" using "3.IH"(2) [OF n cs c] .
  then show ?case using n cs by auto
qed

lemma first_heading_found:
  "first_heading ns siblings \<Longrightarrow> services_heading ns = Some siblings"
proof (induction rule: first_heading.induct)
  case (here h before siblings)
  obtain t as cs where h: "h = Element t as cs" using here(1) by (cases h) (auto simp: is_services_heading_def)
  have "services_heading (h # siblings) = Some siblings"
    using here(1) unfolding h by (simp add: is_services_heading_def)
  then show ?case using services_heading_skip [OF here(2)] by simp
next
  case (inside before t as cs siblings after)
  have n: "\<not> (t \<in> set [''h2'', ''h3''] \<and> contains ''Services Available'' (get_text (Element t as cs)))"
    using inside(2) by (simp add: is_services_heading_def)
  have "services_heading (Element t as cs # after) = Some siblings"
    using n inside(4) by auto
  then show ?case using services_heading_skip [OF inside(1)] by simp
qed


text \<open>
  C7.  Let the first heading of level 2 or 3, in document order, whose text contains
  \<^verbatim>\<open>Services Available\<close> be followed under its parent by the siblings \<open>pre @ post\<close>,
  where \<open>pre\<close> has no heading of level 2 and \<open>post\<close> is empty or starts with one.  If the
  \<^verbatim>\<open>article\<close> elements of \<open>pre\<close> are two, and the first \<^verbatim>\<open>h3\<close> inside them reads
  \<^verbatim>\<open>Podiatry\<close> and \<^verbatim>\<open>Orthotics\<close>, then the Services field of the returned record is
  \<^verbatim>\<open>Podiatry, Orthotics\<close>, whatever follows in \<open>post\<close>: the walk ends at the first
  heading of level 2 or at the last sibling.
\<close>

theorem services_of_two_cards:
  assumes "fst (extract_clinic_details parse net k u nm) = Inr (Some d)"
    and "fst (get_page_content net k u) = Some c" and "parse c = Inr soup"
    and "first_heading (children soup) (pre @ post)"
    and "\<forall>n \<in> set pre. \<not> is_tag [''h2''] n"
    and "post = [] \<or> is_tag [''h2''] (hd post)"
    and "filter (is_tag [''article'']) pre = [a1, a2]"
    and "find_first [''h3''] a1 = Some h1" and "get_text_strip h1 = ''Podiatry''"
    and "find_first [''h3''] a2 = Some h2" and "get_text_strip h2 = ''Orthotics''"
  shows "Services d = ''Podiatry, Orthotics''"
proof -
  have sh: "services_heading (children soup) = Some (pre @ post)"
    using first_heading_found [OF assms(4)] .
  have w: "walk_siblings (pre @ post) [] = walk_siblings pre []"
  proof (cases post)
    case Nil
    then show ?thesis by simp
  next
    case (Cons p ps)
    then have "is_tag [''h2''] p" using assms(6) by simp
    then obtain as cs where "p = Element ''h2'' as cs" by (cases p) auto
    then show ?thesis using walk_siblings_stops [OF assms(5)] Cons by simp
  qed
  have 1: "service_name a1 = Some ''Podiatry''"
    using assms(8,9) by (simp add: service_name_def md1)
  have 2: "service_name a2 = Some ''Orthotics''"
    using assms(10,11) by (simp add: service_name_def md2)
  have "walk_siblings pre [] = [''Podiatry'', ''Orthotics'']"
    using walk_siblings_no_h2 [OF assms(5), of "[]"] assms(7) 1 2 by (simp add: map_filter_simps)
  then have "extract_services soup = ''Podiatry, Orthotics''"
    using sh w by (simp add: extract_services_def)
  then show ?thesis using extract_services_eq [OF assms(1-3)] by simp
qed

theorem services_of_two_cards_witness:
  "fst (extract_clinic_details (\<lambda>c. Inr example_services_page) (\<lambda>k u. Returned ''<html>'') 0
          ''https://www.myfootdr.com.au/our-clinics/noosa/'' ''Noosa Clinic'')
     = Inr (Some \<lparr>Name_of_Clinic = ''Noosa Clinic'', Address = [], Email = [], Phone = [],
                  Services = ''Podiatry, Orthotics''\<rparr>) \<and>
   first_heading (children example_services_page) (example_cards @ example_rest)"
proof -
  let ?d = "\<lparr>Name_of_Clinic = ''Noosa Clinic'', Address = [], Email = [], Phone = [],
                  Services = ''Podiatry, Orthotics''\<rparr>"
  have 1: "fst (extract_clinic_details (\<lambda>c. Inr example_services_page) (\<lambda>k u. Returned ''<html>'') 0
          ''https://www.myfootdr.com.au/our-clinics/noosa/'' ''Noosa Clinic'') = Inr (Some ?d)"
    by code_simp
  have 2: "fst (get_page_content (\<lambda>k u. Returned ''<html>'') 0 ''https://www.myfootdr.com.au/our-clinics/noosa/'')
             = Some ''<html>''"
    by code_simp
  have 3: "(\<lambda>c. Inr example_services_page) ''<html>'' = (Inr example_services_page :: string + node)"
    by simp
  have h: "is_services_heading (Element ''h3'' [] [Text ''Services Available at Noosa''])"
    by code_simp
  have e: "\<forall>n \<in> set (document_order []). \<not> is_services_heading n"
    by (simp add: document_order_def)
  have i: "first_heading (Element ''h3'' [] [Text ''Services Available at Noosa''] # example_cards @ example_rest)
             (example_cards @ example_rest)"
    using first_heading.here [OF h e, of "example_cards @ example_rest"] by simp
  have b: "\<forall>n \<in> set (document_order [Element ''h2'' [] [Text ''About the clinic'']]). \<not> is_services_heading n"
    by code_simp
  have n: "\<not> is_services_heading (Element ''div'' []
          (Element ''h3'' [] [Text ''Services Available at Noosa''] # example_cards @ example_rest))"
    by (simp add: is_services_heading_def)
  have 4: "first_heading (children example_services_page) (example_cards @ example_rest)"
    using first_heading.inside [OF b n i, of "[Element ''h2'' [] [Text ''Services Available elsewhere''],
        Element ''article'' [] [Element ''h3'' [] [Text ''Massage'']]]"]
    by (simp add: example_services_page_def)
  have 5: "\<forall>n \<in> set example_cards. \<not> is_tag [''h2''] n"
    by (simp add: example_cards_def)
  have 6: "example_rest = [] \<or> is_tag [''h2''] (hd example_rest)"
    by (simp add: example_rest_def)
  have 7: "filter (is_tag [''article'']) example_cards =
             [Element ''article'' [] [Element ''h3'' [] [Element ''a'' [(''href'', ''/podiatry/'')] [Text ''Podiatry'']]],
              Element ''article'' [] [Element ''div'' [] [Element ''h3'' [] [Text '' Orthotics '']]]]"
    by (simp add: example_cards_def)
  have 8: "find_first [''h3''] (Element ''article'' [] [Element ''h3'' [] [Element ''a'' [(''href'', ''/podiatry/'')] [Text ''Podiatry'']]])
             = Some (Element ''h3'' [] [Element ''a'' [(''href'', ''/podiatry/'')] [Text ''Podiatry'']])"
    by code_simp
  have 9: "get_text_strip (Element ''h3'' [] [Element ''a'' [(''href'', ''/podiatry/'')] [Text ''Podiatry'']]) = ''Podiatry''"
    by code_simp
  have 10: "find_first [''h3''] (Element ''article'' [] [Element ''div'' [] [Element ''h3'' [] [Text '' Orthotics '']]])
             = Some (Element ''h3'' [] [Text '' Orthotics ''])"
    by code_simp
  have 11: "get_text_strip (Element ''h3'' [] [Text '' Orthotics '']) = ''Orthotics''"
    by code_simp
  from services_of_two_cards [OF 1 2 3 4 5 6 7 8 9 10 11] 1 4 show ?thesis by simp
qed

section \<open>Writing the records and reading them back\<close>

lemma special_chars_distinct:
  "CR \<noteq> LF" "CR \<noteq> QUOTE" "CR \<noteq> CHR '',''" "LF \<noteq> QUOTE" "LF \<noteq> CHR '',''" "QUOTE \<noteq> CHR '',''"
  "LF \<noteq> CR" "QUOTE \<noteq> CR" "CHR '','' \<noteq> CR" "QUOTE \<noteq> LF" "CHR '','' \<noteq> LF" "CHR '','' \<noteq> QUOTE"
  by (simp_all add: CR_def LF_def QUOTE_def)

lemma read_quoted_quote: "read_csv Quoted rows row cur (QUOTE # cs) = read_csv QuoteSeen rows row cur cs"
  by simp

lemma read_quoted_other:
  "c \<noteq> QUOTE \<Longrightarrow> read_csv Quoted rows row cur (c # cs) = read_csv Quoted rows row (cur @ [c]) cs"
  by simp

lemma read_quoteseen_quote:
  "read_csv QuoteSeen rows row cur (QUOTE # cs) = read_csv Quoted rows row (cur @ [QUOTE]) cs"
  by simp

lemma read_start_quote: "read_csv Start rows row cur (QUOTE # cs) = read_csv Quoted rows row cur cs"
  by simp

lemma read_comma:
  "md \<in> {Start, Unquoted, QuoteSeen} \<Longrightarrow>
   read_csv md rows row cur (CHR '','' # cs) = read_csv Start rows (row @ [cur]) [] cs"
  by (auto simp: special_chars_distinct)

lemma read_cr_lf:
  "md \<in> {Start, Unquoted, QuoteSeen} \<Longrightarrow>
   read_csv md rows row cur (CR # LF # cs) = read_csv Start (rows @ [row @ [cur]]) [] [] cs"
  by (auto simp: special_chars_distinct)

lemma read_plain:
  "md \<in> {Start, Unquoted} \<Longrightarrow> c \<noteq> CHR '','' \<Longrightarrow> c \<noteq> QUOTE \<Longrightarrow> c \<noteq> CR \<Longrightarrow> c \<noteq> LF \<Longrightarrow>
   read_csv md rows row cur (c # cs) = read_csv Unquoted rows row (cur @ [c]) cs"
  by auto

lemma read_end: "read_csv Start rows [] [] [] = rows"
  by simp

declare read_csv.simps [simp del]

lemma read_unquoted_field:
  assumes "\<not> needs_quotes f" "md \<in> {Start, Unquoted}"
  shows "\<exists>md' \<in> {Start, Unquoted}. read_csv md rows row cur (f @ r) = read_csv md' rows row (cur @ f) r"
  using assms
proof (induction f arbitrary: md cur)
  case Nil
  then show ?case by auto
next
  case (Cons c f)
  then have c: "c \<noteq> CHR '',''" "c \<noteq> QUOTE" "c \<noteq> CR" "c \<noteq> LF" and f: "\<not> needs_quotes f"
    by (auto simp: needs_quotes_def)
  have "read_csv md rows row cur ((c # f) @ r) = read_csv Unquoted rows row (cur @ [c]) (f @ r)"
    using read_plain [OF Cons.prems(2) c] by simp
  moreover obtain md' where "md' \<in> {Start, Unquoted}"
    "read_csv Unquoted rows row (cur @ [c]) (f @ r) = read_csv md' rows row ((cur @ [c]) @ f) r"
    using Cons.IH [OF f, of Unquoted "cur @ [c]"] by auto
  ultimately show ?case by auto
qed

lemma read_quoted_body:
  "read_csv Quoted rows row cur (concat (map (\<lambda>c. if c = QUOTE then [QUOTE, QUOTE] else [c]) f) @ QUOTE # r)
     = read_csv QuoteSeen rows row (cur @ f) r"
proof (induction f arbitrary: cur)
  case Nil
  then show ?case by (simp add: read_quoted_quote)
next
  case (Cons c f)
  show ?case
  proof (cases "c = QUOTE")
    case True
    then show ?thesis using Cons [of "cur @ [QUOTE]"]
      by (simp add: read_quoted_quote read_quoteseen_quote)
  next
    case False
    then show ?thesis using Cons [of "cur @ [c]"]
      by (simp add: read_quoted_other)
  qed
qed

lemma read_field:
  "\<exists>md' \<in> {Start, Unquoted, QuoteSeen}.
     read_csv Start rows row [] (csv_field f @ r) = read_csv md' rows row f r"
proof (cases "needs_quotes f")
  case True
  then show ?thesis using read_quoted_body [of rows row "[]" f r]
    by (simp add: csv_field_def read_start_quote)
next
  case False
  then show ?thesis using read_unquoted_field [OF False, of Start rows row "[]" r]
    by (auto simp: csv_field_def)
qed

lemma read_row:
  "fs \<noteq> [] \<Longrightarrow>
   read_csv Start rows row [] (join '','' (map csv_field fs) @ CR # LF # rest)
     = read_csv Start (rows @ [row @ fs]) [] [] rest"
proof (induction fs arbitrary: row)
  case Nil
  then show ?case by simp
next
  case (Cons f fs)
  show ?case
  proof (cases fs)
    case Nil
    obtain md' where "md' \<in> {Start, Unquoted, QuoteSeen}"
      "read_csv Start rows row [] (csv_field f @ CR # LF # rest) = read_csv md' rows row f (CR # LF # rest)"
      using read_field [of rows row f "CR # LF # rest"] by blast
    then show ?thesis using Nil read_cr_lf [of md' rows row f rest] by simp
  next
    case (Cons g gs)
    obtain md' where md: "md' \<in> {Start, Unquoted, QuoteSeen}"
      "read_csv Start rows row [] (csv_field f @ CHR '','' # join '','' (map csv_field fs) @ CR # LF # rest)
         = read_csv md' rows row f (CHR '','' # join '','' (map csv_field fs) @ CR # LF # rest)"
      using read_field [of rows row f "CHR '','' # join '','' (map csv_field fs) @ CR # LF # rest"] by blast
    have "fs \<noteq> []" using Cons by simp
    from Cons.IH [OF this, of "row @ [f]"] md read_comma [OF md(1)] show ?thesis
      using Cons by simp
  qed
qed

lemma read_rows:
  "\<forall>r \<in> set rs. r \<noteq> [] \<Longrightarrow> read_csv Start rows [] [] (concat (map csv_row rs)) = rows @ rs"
proof (induction rs arbitrary: rows)
  case Nil
  then show ?case by (simp add: read_end)
next
  case (Cons r rs)
  have r: "r \<noteq> []" and rs: "\<forall>r \<in> set rs. r \<noteq> []" using Cons.prems by auto
  have "concat (map csv_row (r # rs)) = join '','' (map csv_field r) @ CR # LF # concat (map csv_row rs)"
    by (simp add: csv_row_def)
  then have "read_csv Start rows [] [] (concat (map csv_row (r # rs)))
               = read_csv Start (rows @ [r]) [] [] (concat (map csv_row rs))"
    using read_row [OF r, of rows "[]" "concat (map csv_row rs)"] by simp
  also have "\<dots> = (rows @ [r]) @ rs" using Cons.IH [OF rs] .
  finally show ?case by simp
qed

text \<open>
  C10.  When there is a record, the text that the run writes into the file starts with
  the header row \<^verbatim>\<open>Name of Clinic,Address,Email,Phone,Services\<close>, and read back by the
  standard rules of quoted delimited text it is the five names of the header followed
  by one row for every record, in the same order, whose five fields are the name, the
  address, the email, the phone and the services of the record.
\<close>

theorem csv_round_trip:
  assumes "clinic_data \<noteq> []"
  shows "read_back (written (writing clinic_data successful failed)) =
           [''Name of Clinic'', ''Address'', ''Email'', ''Phone'', ''Services''] #
           map (\<lambda>d. [Name_of_Clinic d, Address d, Email d, Phone d, Services d]) clinic_data \<and>
         length (tl (read_back (written (writing clinic_data successful failed)))) = length clinic_data \<and>
         prefix (''Name of Clinic,Address,Email,Phone,Services'' @ [CHR 0x0D, CHR 0x0A])
           (written (writing clinic_data successful failed))"
proof -
  have "csv_text clinic_data = concat (map csv_row (fieldnames # map row_of clinic_data))"
    by (simp add: csv_text_def o_def)
  moreover have "\<forall>r \<in> set (fieldnames # map row_of clinic_data). r \<noteq> []"
    by (auto simp: fieldnames_def row_of_def)
  ultimately have 1: "read_back (csv_text clinic_data) = fieldnames # map row_of clinic_data"
    using read_rows [of "fieldnames # map row_of clinic_data" "[]"] by (simp add: read_back_def)
  have w: "written (map (\<lambda>d. WriteText (csv_row (row_of d))) ds @ evs) = concat (map (\<lambda>d. csv_row (row_of d)) ds) @ written evs" for ds evs
    by (induction ds) auto
  have 2: "written (writing clinic_data successful failed) = csv_text clinic_data"
    using assms by (simp add: writing_def w csv_text_def)
  have h: "csv_row fieldnames = ''Name of Clinic,Address,Email,Phone,Services'' @ [CHR 0x0D, CHR 0x0A]"
    by code_simp
  have 3: "prefix (''Name of Clinic,Address,Email,Phone,Services'' @ [CHR 0x0D, CHR 0x0A]) (csv_text clinic_data)"
    unfolding csv_text_def h by (rule prefixI) simp
  have 4: "fieldnames # map row_of clinic_data = [''Name of Clinic'', ''Address'', ''Email'', ''Phone'', ''Services''] #
           map (\<lambda>d. [Name_of_Clinic d, Address d, Email d, Phone d, Services d]) clinic_data"
    by (simp add: fieldnames_def row_of_def)
  show ?thesis unfolding 2 using 1 3 4 by simp
qed

theorem csv_round_trip_witness:
  "written (writing example_records 2 0) = example_file \<and>
   read_back example_file =
     [[''Name of Clinic'', ''Address'', ''Email'', ''Phone'', ''Services''],
      [''Allsports Podiatry Noosa'', ''Unit 4, 17 Sunshine Beach Rd'' @ [CHR 0x0A] @ ''Noosa QLD 4567'',
       ''noosa@example.com'', ''(07) 5555 1234'', ''Podiatry, Orthotics''],
      [''The '' @ [CHR 0x22] @ ''Foot'' @ [CHR 0x22] @ '' Clinic'', [], [], [], []]]"
proof -
  have n: "example_records \<noteq> []" by (simp add: example_records_def)
  have w: "written (writing example_records 2 0) = example_file" by code_simp
  from csv_round_trip [OF n, of 2 0] show ?thesis
    unfolding w by (simp add: example_records_def)
qed


section \<open>The address of a clinic\<close>





























end
